theory Spec2Isabelle
  imports Main
begin

section \<open>JavaScript string primitives\<close>

text \<open>
  Strings are character lists. The models below are exact for ASCII text, which is what
  diff markers, file paths, identifiers and endpoint paths consist of.
\<close>

fun startsWith :: "string \<Rightarrow> string \<Rightarrow> bool" where
  "startsWith s [] = True"
| "startsWith [] (p # ps) = False"
| "startsWith (c # cs) (p # ps) = (c = p \<and> startsWith cs ps)"

definition endsWith :: "string \<Rightarrow> string \<Rightarrow> bool" where
  "endsWith s p = startsWith (rev s) (rev p)"

text \<open>\<^verbatim>\<open>s.includes(p)\<close>: \<open>p\<close> occurs somewhere in \<open>s\<close>.\<close>

fun includes_str :: "string \<Rightarrow> string \<Rightarrow> bool" where
  "includes_str [] p = (p = [])"
| "includes_str (c # cs) p = (startsWith (c # cs) p \<or> includes_str cs p)"

text \<open>\<^verbatim>\<open>s.split(sep)\<close> for a one-character separator; the result is never empty.\<close>

fun split_on :: "char \<Rightarrow> string \<Rightarrow> string list" where
  "split_on sep [] = [[]]"
| "split_on sep (c # cs) =
     (if c = sep then [] # split_on sep cs
      else (case split_on sep cs of
              [] \<Rightarrow> [[c]]
            | l # ls \<Rightarrow> (c # l) # ls))"

definition is_digit :: "char \<Rightarrow> bool" where
  "is_digit c = (c \<in> set ''0123456789'')"

text \<open>
  JavaScript numbers are IEEE doubles. An integer is exact up to
  \<^verbatim>\<open>Number.MAX_SAFE_INTEGER\<close>, that is \<open>2^53 - 1\<close>; beyond it \<^verbatim>\<open>parseInt\<close> rounds and
  \<^verbatim>\<open>currentLine++\<close> need not advance. The model follows line numbers as integers as long
  as they are safe: \<open>safe_number\<close> is \<open>None\<close> for a number beyond the range, and a scan
  that reaches such a number has no result in the model. \<open>None\<close> therefore never stands
  for an error of the code, only for a run that the model does not describe.
\<close>

definition max_safe :: int where
  "max_safe = 2 ^ 53 - 1"

definition safe_number :: "int \<Rightarrow> int option" where
  "safe_number n = (if n \<le> max_safe then Some n else None)"

text \<open>The number that a string of decimal digits denotes.\<close>

definition digits_value :: "string \<Rightarrow> int" where
  "digits_value ds = foldl (\<lambda>n c. 10 * n + (of_char c - 48)) 0 ds"

text \<open>\<^verbatim>\<open>parseInt\<close> on a non-empty string of decimal digits.\<close>

definition parseInt :: "string \<Rightarrow> int option" where
  "parseInt ds = safe_number (digits_value ds)"

definition newline :: char where
  "newline = CHR 0x0A"

definition backslash :: char where
  "backslash = CHR 0x5C"

section \<open>change-analyzer.js: parseGitDiff\<close>

text \<open>
  The hunk header is recognised by
  \<^verbatim>\<open>line.match(/@@ -(\d+),?\d* \+(\d+),?\d* @@/)\<close>. The pattern is not anchored, so it is
  tried at every position of the line from the left (\<open>find_header\<close>). At one position
  (\<open>header_at\<close>) the match is deterministic: a digit run is always followed by a
  non-digit, so each \<^verbatim>\<open>\d+\<close> and \<^verbatim>\<open>\d*\<close> takes a whole run of digits. The
  result is the text of the second group, the start line in the new file.
\<close>

definition opt_comma :: "string \<Rightarrow> string" where
  "opt_comma xs = (if startsWith xs '','' then drop 1 xs else xs)"

definition header_at :: "string \<Rightarrow> string option" where
  "header_at xs =
     (if \<not> startsWith xs ''@@ -'' then None
      else let r1 = drop 4 xs in
        if takeWhile is_digit r1 = [] then None
        else let r2 = dropWhile is_digit (opt_comma (dropWhile is_digit r1)) in
          if \<not> startsWith r2 '' +'' then None
          else let r3 = drop 2 r2; d2 = takeWhile is_digit r3 in
            if d2 = [] then None
            else let r4 = dropWhile is_digit (opt_comma (dropWhile is_digit r3)) in
              if startsWith r4 '' @@'' then Some d2 else None)"

fun find_header :: "string \<Rightarrow> string option" where
  "find_header [] = None"
| "find_header (c # cs) =
     (case header_at (c # cs) of Some d \<Rightarrow> Some d | None \<Rightarrow> find_header cs)"

text \<open>
  \<open>hend\<close> is the field \<^verbatim>\<open>end\<close>, which a hunk only gets after the scan
  (\<^verbatim>\<open>hunks.forEach(h => h.end = h.start + h.content.length)\<close>).
\<close>

record hunk =
  start :: int
  content :: "string list"
  type :: string
  hend :: "int option"

record line_changes =
  added :: "int list"
  deleted :: "int list"
  modified :: "int list"

text \<open>
  The local variables of the scan loop. The variable \<^verbatim>\<open>hunk\<close> of the source is either
  \<^verbatim>\<open>null\<close> (no header seen yet) or the object pushed last onto \<^verbatim>\<open>hunks\<close>, so
  \<^verbatim>\<open>if (hunk) hunk.content.push(line)\<close> appends to the last hunk when there is one.
\<close>

record diff_state =
  currentLine :: int
  lines :: line_changes
  hunks :: "hunk list"

definition push_content :: "string \<Rightarrow> hunk list \<Rightarrow> hunk list" where
  "push_content l hs =
     (if hs = [] then []
      else butlast hs @ [(last hs)\<lparr>content := content (last hs) @ [l]\<rparr>])"

text \<open>One iteration of \<^verbatim>\<open>for (const line of diffLines)\<close>.\<close>

definition scan_line :: "diff_state \<Rightarrow> string \<Rightarrow> diff_state option" where
  "scan_line st line =
     (if startsWith line ''@@'' then
        (case find_header line of
           Some d \<Rightarrow>
             map_option
               (\<lambda>n. st\<lparr>currentLine := n,
                       hunks := hunks st @
                         [\<lparr>start = n, content = [], type = ''mixed'', hend = None\<rparr>]\<rparr>)
               (parseInt d)
         | None \<Rightarrow> Some st)
      else if startsWith line ''+'' \<and> \<not> startsWith line ''+++'' then
        map_option
          (\<lambda>n. st\<lparr>lines := (lines st)\<lparr>added := added (lines st) @ [currentLine st]\<rparr>,
                  hunks := push_content line (hunks st),
                  currentLine := n\<rparr>)
          (safe_number (currentLine st + 1))
      else if startsWith line ''-'' \<and> \<not> startsWith line ''---'' then
        Some (st\<lparr>lines := (lines st)\<lparr>deleted := deleted (lines st) @ [currentLine st]\<rparr>,
                 hunks := push_content line (hunks st)\<rparr>)
      else if \<not> startsWith line [backslash] then
        map_option (\<lambda>n. st\<lparr>currentLine := n\<rparr>) (safe_number (currentLine st + 1))
      else Some st)"

text \<open>The whole loop over the lines of the diff.\<close>

fun scan :: "diff_state \<Rightarrow> string list \<Rightarrow> diff_state option" where
  "scan st [] = Some st"
| "scan st (line # rest) =
     (case scan_line st line of None \<Rightarrow> None | Some st' \<Rightarrow> scan st' rest)"

definition initial_state :: diff_state where
  "initial_state =
     \<lparr>currentLine = 0,
      lines = \<lparr>added = [], deleted = [], modified = []\<rparr>,
      hunks = []\<rparr>"

text \<open>
  The reconciliation loops:
  \<^verbatim>\<open>
  for (let i = 0; i < lines.added.length; i++) {
    for (let j = 0; j < lines.deleted.length; j++) {
      if (Math.abs(lines.added[i] - lines.deleted[j]) <= 1) {
        lines.modified.push(lines.added[i]);
        lines.added.splice(i, 1);
        lines.deleted.splice(j, 1);
        i--;
        break;
      }
    }
  }
  \<close>
  \<open>find_adjacent\<close> is the inner loop: the first index \<open>j\<close> whose deleted line is within
  one line of the added line. After a pairing, \<^verbatim>\<open>i--\<close> and the loop's \<^verbatim>\<open>i++\<close>
  leave \<open>i\<close> where it was, now pointing at the next added line.
\<close>

fun find_adjacent :: "int \<Rightarrow> int list \<Rightarrow> nat option" where
  "find_adjacent a [] = None"
| "find_adjacent a (d # ds) =
     (if \<bar>a - d\<bar> \<le> 1 then Some 0 else map_option Suc (find_adjacent a ds))"

text \<open>\<^verbatim>\<open>xs.splice(i, 1)\<close>\<close>

definition splice1 :: "nat \<Rightarrow> 'a list \<Rightarrow> 'a list" where
  "splice1 i xs = take i xs @ drop (Suc i) xs"

function reconcile :: "nat \<Rightarrow> line_changes \<Rightarrow> line_changes" where
  "reconcile i ls =
     (if i < length (added ls) then
        (case find_adjacent (added ls ! i) (deleted ls) of
           Some j \<Rightarrow>
             reconcile i
               \<lparr>added = splice1 i (added ls),
                deleted = splice1 j (deleted ls),
                modified = modified ls @ [added ls ! i]\<rparr>
         | None \<Rightarrow> reconcile (Suc i) ls)
      else ls)"
  by pat_completeness auto
termination
  by (relation "measure (\<lambda>(i, ls). length (added ls) - i)") (auto simp: splice1_def)

declare reconcile.simps [simp del]

text \<open>\<^verbatim>\<open>hunks.forEach(h => h.end = h.start + h.content.length)\<close>\<close>

definition set_end :: "hunk \<Rightarrow> hunk option" where
  "set_end h =
     map_option (\<lambda>e. h\<lparr>hend := Some e\<rparr>) (safe_number (start h + int (length (content h))))"

fun set_ends :: "hunk list \<Rightarrow> hunk list option" where
  "set_ends [] = Some []"
| "set_ends (h # hs) =
     (case set_end h of
        None \<Rightarrow> None
      | Some h' \<Rightarrow> map_option ((#) h') (set_ends hs))"

definition parseGitDiff :: "string \<Rightarrow> (line_changes \<times> hunk list) option" where
  "parseGitDiff diff =
     (case scan initial_state (split_on newline diff) of
        None \<Rightarrow> None
      | Some st \<Rightarrow> map_option (\<lambda>hs. (reconcile 0 (lines st), hs)) (set_ends (hunks st)))"

text \<open>
  A diff whose line numbers cannot leave the safe range: every hunk header's new-file
  start, plus the number of lines of the diff, is a safe integer.
\<close>

definition within_range :: "string \<Rightarrow> bool" where
  "within_range diff =
     (int (length (split_on newline diff)) \<le> max_safe
      \<and> list_all
          (\<lambda>l. case find_header l of
                  None \<Rightarrow> True
                | Some d \<Rightarrow> digits_value d + int (length (split_on newline diff)) \<le> max_safe)
          (split_on newline diff))"

text \<open>
  The text of a hunk header: \<^verbatim>\<open>@@ -a,b +c,d @@\<close> followed by anything, where git leaves
  out a count \<^verbatim>\<open>,b\<close> or \<^verbatim>\<open>,d\<close> that is 1.
\<close>

definition count_part :: "string option \<Rightarrow> string" where
  "count_part n = (case n of None \<Rightarrow> [] | Some ds \<Rightarrow> CHR '','' # ds)"

definition hunk_header :: "string \<Rightarrow> string option \<Rightarrow> string \<Rightarrow> string option \<Rightarrow> string \<Rightarrow> string" where
  "hunk_header a b c d rest =
     ''@@ -'' @ a @ count_part b @ '' +'' @ c @ count_part d @ '' @@'' @ rest"

definition all_digits :: "string \<Rightarrow> bool" where
  "all_digits ds = list_all is_digit ds"

text \<open>
  The kinds of line in the body of a hunk, and the lines that exist in the new file:
  additions and context lines, but neither deletions nor the marker
  \<^verbatim>\<open>\ No newline at end of file\<close>.
\<close>

definition is_addition :: "string \<Rightarrow> bool" where
  "is_addition l = (startsWith l ''+'' \<and> \<not> startsWith l ''+++'')"

definition is_deletion :: "string \<Rightarrow> bool" where
  "is_deletion l = (startsWith l ''-'' \<and> \<not> startsWith l ''---'')"

definition in_new_file :: "string \<Rightarrow> bool" where
  "in_new_file l = (\<not> is_deletion l \<and> \<not> startsWith l [backslash])"

text \<open>
  The line numbers that a body starting at cursor \<open>c\<close> should record for its lines of one
  kind: \<open>c\<close> plus the number of earlier body lines that exist in the new file.
\<close>

definition numbers_of :: "(string \<Rightarrow> bool) \<Rightarrow> int \<Rightarrow> string list \<Rightarrow> int list" where
  "numbers_of kind c body =
     map (\<lambda>k. c + int (length (filter in_new_file (take k body))))
       (filter (\<lambda>k. kind (body ! k)) [0..<length body])"

text \<open>Joining lines with a newline, to write diffs down.\<close>

fun unlines :: "string list \<Rightarrow> string" where
  "unlines [] = []"
| "unlines [l] = l"
| "unlines (l # ls) = l @ [newline] @ unlines ls"

text \<open>
  Scenario A of the specification: one hunk \<^verbatim>\<open>@@ -10,3 +10,4 @@\<close> that adds one line
  after the first context line and deletes none.
\<close>

definition scenario_A_diff :: string where
  "scenario_A_diff = unlines
     [''diff --git a/src/app.js b/src/app.js'',
      ''--- a/src/app.js'',
      ''+++ b/src/app.js'',
      ''@@ -10,3 +10,4 @@'',
      '' const a = 1;'',
      ''+const b = 2;'',
      '' const c = 3;'',
      '' const d = 4;'']"

text \<open>Three lines replaced by one: three deletions and one addition at new-file line 5.\<close>

definition shrinking_diff :: string where
  "shrinking_diff = unlines
     [''@@ -5,3 +5,1 @@'',
      ''-first'',
      ''-second'',
      ''-third'',
      ''+merged'']"

text \<open>
  A hunk that starts at line 3 of the old file and line 7 of the new one, with a deletion
  at its first line and an addition three lines further down.
\<close>

definition distant_diff :: string where
  "distant_diff = unlines
     [''@@ -3,4 +7,4 @@ function render() {'',
      ''-old'',
      '' keep 1'',
      '' keep 2'',
      '' keep 3'',
      ''+new'']"

definition no_newline_marker :: string where
  "no_newline_marker = backslash # '' No newline at end of file''"

text \<open>The body of a hunk, with all kinds of line.\<close>

definition sample_body :: "string list" where
  "sample_body =
     ['' context'', ''-removed'', no_newline_marker, ''+first'', '' context'', ''+second'']"

section \<open>api-tester.js: pluralizeEndpoint\<close>

text \<open>
  \<^verbatim>\<open>
  pluralizeEndpoint(endpoint) {
    if (endpoint.endsWith('y')) return endpoint.slice(0, -1) + 'ies';
    if (!endpoint.endsWith('s')) return endpoint + 's';
    return endpoint;
  }
  \<close>
\<close>

definition pluralizeEndpoint :: "string \<Rightarrow> string" where
  "pluralizeEndpoint endpoint =
     (if endsWith endpoint ''y'' then butlast endpoint @ ''ies''
      else if \<not> endsWith endpoint ''s'' then endpoint @ ''s''
      else endpoint)"

section \<open>change-analyzer.js: detectFunctionChanges\<close>

datatype change_type = Added | Modified | Deleted

text \<open>
  The syntax tree is given by the nodes that \<^verbatim>\<open>traverse\<close> visits, in visiting order:
  \<^item> \<^verbatim>\<open>FunctionDeclaration\<close> with \<^verbatim>\<open>node.id?.name\<close>, \<^verbatim>\<open>loc.start.line\<close> and
    \<^verbatim>\<open>loc.end.line\<close>;
  \<^item> \<^verbatim>\<open>ArrowFunctionExpression\<close> with whether \<^verbatim>\<open>path.parent.type === 'VariableDeclarator'\<close>,
    \<^verbatim>\<open>path.parent.id?.name\<close>, and the two lines;
  \<^item> \<^verbatim>\<open>ClassMethod\<close> with the name of the enclosing class, \<^verbatim>\<open>node.key?.name\<close>, and the
    two lines;
  \<^item> any other node, which no visitor handles.
\<close>

datatype node =
    FunctionDeclaration "string option" int int
  | ArrowFunctionExpression bool "string option" int int
  | ClassMethod "string option" "string option" int int
  | OtherNode

definition is_class_method :: "node \<Rightarrow> bool" where
  "is_class_method n = (case n of ClassMethod cls key s e \<Rightarrow> True | _ \<Rightarrow> False)"

text \<open>\<^verbatim>\<open>x?.name || d\<close>: the default replaces a missing name and the empty string.\<close>

definition or_default :: "string option \<Rightarrow> string \<Rightarrow> string" where
  "or_default x d = (case x of None \<Rightarrow> d | Some s \<Rightarrow> if s = [] then d else s)"

text \<open>
  \<^verbatim>\<open>obj[k] = v\<close> on an object created by \<^verbatim>\<open>{}\<close>. Every key becomes an own property,
  except \<^verbatim>\<open>__proto__\<close>: that assignment goes to the setter inherited from
  \<^verbatim>\<open>Object.prototype\<close>, which ignores a string value and stores nothing.
\<close>

definition set_property :: "(string \<rightharpoonup> 'v) \<Rightarrow> string \<Rightarrow> 'v \<Rightarrow> (string \<rightharpoonup> 'v)" where
  "set_property obj k v = (if k = ''__proto__'' then obj else obj(k \<mapsto> v))"

text \<open>\<^verbatim>\<open>[...lineChanges.added, ...lineChanges.modified, ...lineChanges.deleted]\<close>\<close>

definition allLines :: "line_changes \<Rightarrow> int list" where
  "allLines lineChanges = added lineChanges @ modified lineChanges @ deleted lineChanges"

text \<open>
  The value assigned in the visitors:
  \<^verbatim>\<open>
  lineChanges.deleted.some(l => l >= start && l <= end) ? 'deleted' :
  lineChanges.added.some(l => l >= start && l <= end) ? 'added' : 'modified'
  \<close>
\<close>

definition classify :: "line_changes \<Rightarrow> int \<Rightarrow> int \<Rightarrow> change_type" where
  "classify lineChanges s e =
     (if list_ex (\<lambda>l. l \<ge> s \<and> l \<le> e) (deleted lineChanges) then Deleted
      else if list_ex (\<lambda>l. l \<ge> s \<and> l \<le> e) (added lineChanges) then Added
      else Modified)"

text \<open>
  The loop \<^verbatim>\<open>for (const line of allLines)\<close> of a visitor: at the first line inside
  \<open>[s, e]\<close> it assigns and breaks.
\<close>

fun attribute ::
  "line_changes \<Rightarrow> string \<Rightarrow> int \<Rightarrow> int \<Rightarrow> int list \<Rightarrow> (string \<rightharpoonup> change_type)
   \<Rightarrow> (string \<rightharpoonup> change_type)" where
  "attribute lineChanges name s e [] functions = functions"
| "attribute lineChanges name s e (line # rest) functions =
     (if line \<ge> s \<and> line \<le> e
      then set_property functions name (classify lineChanges s e)
      else attribute lineChanges name s e rest functions)"

text \<open>
  The three visitors. The one for \<^verbatim>\<open>ClassMethod\<close> starts with
  \<^verbatim>\<open>const className = path.parent.parent.id?.name || 'Class'\<close>. In a visitor
  \<^verbatim>\<open>path.parent\<close> is the parent node, here the class body, and a node has no property
  \<^verbatim>\<open>parent\<close>: \<^verbatim>\<open>path.parent.parent\<close> is \<^verbatim>\<open>undefined\<close> and reading its \<^verbatim>\<open>id\<close> throws
  a \<^verbatim>\<open>TypeError\<close>, for every class method, before any line is looked at.
\<close>

datatype traverse_error = TypeError

fun visit ::
  "line_changes \<Rightarrow> (string \<rightharpoonup> change_type) \<Rightarrow> node
   \<Rightarrow> traverse_error + (string \<rightharpoonup> change_type)" where
  "visit lineChanges functions (FunctionDeclaration ident s e) =
     Inr (attribute lineChanges (or_default ident ''anonymous'') s e
            (allLines lineChanges) functions)"
| "visit lineChanges functions (ArrowFunctionExpression in_declarator ident s e) =
     (if in_declarator
      then Inr (attribute lineChanges (or_default ident ''anonymous'') s e
                  (allLines lineChanges) functions)
      else Inr functions)"
| "visit lineChanges functions (ClassMethod cls key s e) = Inl TypeError"
| "visit lineChanges functions OtherNode = Inr functions"

text \<open>
  \<^verbatim>\<open>traverse.default(ast, {...})\<close> calls the visitors node by node; an exception of a
  visitor ends the traversal and makes \<open>detectFunctionChanges\<close> fail with it.
\<close>

fun traverse ::
  "line_changes \<Rightarrow> (string \<rightharpoonup> change_type) \<Rightarrow> node list
   \<Rightarrow> traverse_error + (string \<rightharpoonup> change_type)" where
  "traverse lineChanges functions [] = Inr functions"
| "traverse lineChanges functions (n # ns) =
     (case visit lineChanges functions n of
        Inl err \<Rightarrow> Inl err
      | Inr functions' \<Rightarrow> traverse lineChanges functions' ns)"

definition detectFunctionChanges ::
  "node list \<Rightarrow> line_changes \<Rightarrow> traverse_error + (string \<rightharpoonup> change_type)" where
  "detectFunctionChanges ast lineChanges = traverse lineChanges Map.empty ast"

text \<open>
  The specification's view of the same data: the declaration \<open>(name, startLine, endLine)\<close>
  that a node stands for, the declarations of a tree, whether a range contains a changed
  line, and the tie-break rule in the specification's words.
\<close>

fun decl_of :: "node \<Rightarrow> (string \<times> int \<times> int) option" where
  "decl_of (FunctionDeclaration ident s e) = Some (or_default ident ''anonymous'', s, e)"
| "decl_of (ArrowFunctionExpression in_declarator ident s e) =
     (if in_declarator then Some (or_default ident ''anonymous'', s, e) else None)"
| "decl_of (ClassMethod cls key s e) =
     Some (or_default cls ''Class'' @ ''.'' @ or_default key ''method'', s, e)"
| "decl_of OtherNode = None"

definition declarations :: "node list \<Rightarrow> (string \<times> int \<times> int) list" where
  "declarations ast = List.map_filter decl_of ast"

definition touched :: "line_changes \<Rightarrow> int \<Rightarrow> int \<Rightarrow> bool" where
  "touched lineChanges s e =
     (\<exists>l. l \<in> set (added lineChanges) \<union> set (modified lineChanges) \<union> set (deleted lineChanges)
          \<and> s \<le> l \<and> l \<le> e)"

definition spec_class :: "line_changes \<Rightarrow> int \<Rightarrow> int \<Rightarrow> change_type" where
  "spec_class lineChanges s e =
     (if \<exists>l. l \<in> set (deleted lineChanges) \<and> s \<le> l \<and> l \<le> e then Deleted
      else if \<exists>l. l \<in> set (added lineChanges) \<and> s \<le> l \<and> l \<le> e then Added
      else Modified)"

text \<open>The declarations of one name whose range contains a changed line, in visiting order.\<close>

definition hits :: "line_changes \<Rightarrow> string \<Rightarrow> node list \<Rightarrow> (string \<times> int \<times> int) list" where
  "hits lc k ast = filter (\<lambda>(name, s, e). name = k \<and> touched lc s e) (declarations ast)"

text \<open>
  Two components of one file, each with its own \<^verbatim>\<open>const handleClick = () => ...\<close>: the first
  spans lines 1 to 3, the second lines 10 to 12. Line 2 is deleted, line 11 modified.
\<close>

definition duplicate_ast :: "node list" where
  "duplicate_ast =
     [ArrowFunctionExpression True (Some ''handleClick'') 1 3,
      OtherNode,
      ArrowFunctionExpression True (Some ''handleClick'') 10 12]"

definition duplicate_changes :: line_changes where
  "duplicate_changes = \<lparr>added = [], deleted = [2], modified = [11]\<rparr>"

text \<open>
  Three components with a \<^verbatim>\<open>handleClick\<close> each, on lines 1 to 3, 10 to 12 and 20 to 22, and
  a function \<^verbatim>\<open>render\<close>. Line 2 is deleted, line 11 added; the third \<^verbatim>\<open>handleClick\<close> is
  untouched.
\<close>

definition shared_name_ast :: "node list" where
  "shared_name_ast =
     [ArrowFunctionExpression True (Some ''handleClick'') 1 3,
      ArrowFunctionExpression True (Some ''handleClick'') 10 12,
      FunctionDeclaration (Some ''render'') 14 18,
      ArrowFunctionExpression True (Some ''handleClick'') 20 22]"

definition shared_name_changes :: line_changes where
  "shared_name_changes = \<lparr>added = [11], deleted = [2], modified = []\<rparr>"

text \<open>Scenario B: \<^verbatim>\<open>getUser\<close> on lines 5 to 9 (and a second function), line 7 modified.\<close>

definition scenario_B_ast :: "node list" where
  "scenario_B_ast =
     [FunctionDeclaration (Some ''getUser'') 5 9,
      FunctionDeclaration (Some ''listUsers'') 20 30]"

definition scenario_B_changes :: line_changes where
  "scenario_B_changes = \<lparr>added = [], deleted = [], modified = [7]\<rparr>"

text \<open>A class with one method, on lines 3 to 6 of a file whose line 20 is modified.\<close>

definition class_ast :: "node list" where
  "class_ast =
     [FunctionDeclaration (Some ''getUser'') 18 22,
      ClassMethod (Some ''UserStore'') (Some ''load'') 3 6]"

section \<open>self-healing-framework.js: SelfHealingTest.findElement\<close>

text \<open>
  The selector descriptor: every hint is optional. \<open>ident\<close>, \<open>text_hint\<close> and \<open>name_hint\<close>
  are the fields \<^verbatim>\<open>id\<close>, \<^verbatim>\<open>text\<close> and \<^verbatim>\<open>name\<close>. A test such as
  \<^verbatim>\<open>if (selectors.css)\<close> holds for a present, non-empty string (\<open>truthy\<close>).
\<close>

record selectors =
  testId :: "string option"
  ident :: "string option"
  css :: "string option"
  xpath :: "string option"
  text_hint :: "string option"
  partialText :: "string option"
  role :: "string option"
  name_hint :: "string option"
  description :: "string option"

definition truthy :: "string option \<Rightarrow> bool" where
  "truthy x = (case x of None \<Rightarrow> False | Some s \<Rightarrow> s \<noteq> [])"

text \<open>
  What the strategies build: \<^verbatim>\<open>base.locator(selector)\<close> with an optional context locator
  as base (the page otherwise), and the page's \<^verbatim>\<open>getByRole\<close>, \<^verbatim>\<open>getByText\<close>,
  \<^verbatim>\<open>getByLabel\<close>, \<^verbatim>\<open>getByPlaceholder\<close>. Building a locator queries nothing.
\<close>

datatype locator =
    Locator "locator option" string
  | GetByRole string string
  | GetByText string
  | GetByLabel string
  | GetByPlaceholder string

datatype js_error = Error string

text \<open>
  The live page, as far as \<open>findElement\<close> looks at it: \<^verbatim>\<open>await locator.count()\<close> gives
  the number of matching elements or throws. The page is taken not to change during one
  call.
\<close>

type_synonym page = "locator \<Rightarrow> js_error + nat"

definition quote :: char where
  "quote = CHR 0x22"

text \<open>
  The six strategies. Each returns a locator, \<^verbatim>\<open>undefined\<close> (\<open>Inr None\<close>) when its
  hints are missing, or throws.
\<close>

definition tier1 :: "selectors \<Rightarrow> js_error + locator option" where
  "tier1 sel =
     (if truthy (testId sel)
      then Inr (Some (Locator None (''[data-testid='' @ [quote] @ the (testId sel) @ [quote] @ '']'')))
      else if truthy (ident sel) then Inr (Some (Locator None (''#'' @ the (ident sel))))
      else Inr None)"

definition tier2 :: "selectors \<Rightarrow> locator option \<Rightarrow> js_error + locator option" where
  "tier2 sel ctx =
     (if truthy (css sel) then Inr (Some (Locator ctx (the (css sel)))) else Inr None)"

definition tier3 :: "selectors \<Rightarrow> js_error + locator option" where
  "tier3 sel =
     (if truthy (xpath sel) then Inr (Some (Locator None (''xpath='' @ the (xpath sel))))
      else Inr None)"

definition tier4 :: "selectors \<Rightarrow> js_error + locator option" where
  "tier4 sel =
     (if truthy (text_hint sel) then Inr (Some (Locator None (''text='' @ the (text_hint sel))))
      else if truthy (partialText sel)
      then Inr (Some (Locator None (''text=/'' @ the (partialText sel) @ ''/i'')))
      else Inr None)"

definition tier5 :: "selectors \<Rightarrow> js_error + locator option" where
  "tier5 sel =
     (if truthy (role sel) \<and> truthy (name_hint sel)
      then Inr (Some (GetByRole (the (role sel)) (the (name_hint sel))))
      else Inr None)"

text \<open>
  Tier 6: \<^verbatim>\<open>for (const attempt of attempts) { if (await attempt.count() === 1) return attempt }\<close>
\<close>

fun first_unique :: "page \<Rightarrow> locator list \<Rightarrow> js_error + locator option" where
  "first_unique pg [] = Inr None"
| "first_unique pg (attempt # attempts) =
     (case pg attempt of
        Inl err \<Rightarrow> Inl err
      | Inr count \<Rightarrow> if count = 1 then Inr (Some attempt) else first_unique pg attempts)"

definition tier6 :: "page \<Rightarrow> selectors \<Rightarrow> js_error + locator option" where
  "tier6 pg sel =
     (if truthy (description sel)
      then first_unique pg
             [GetByText (the (description sel)),
              GetByLabel (the (description sel)),
              GetByPlaceholder (the (description sel))]
      else Inr None)"

definition strategies :: "page \<Rightarrow> selectors \<Rightarrow> locator option \<Rightarrow> (js_error + locator option) list" where
  "strategies pg sel ctx = [tier1 sel, tier2 sel ctx, tier3 sel, tier4 sel, tier5 sel, tier6 pg sel]"

text \<open>
  An entry of \<^verbatim>\<open>healingAttempts\<close>, the healing ledger:
  \<^verbatim>\<open>{selectors, strategy: i + 1 | 'failed', success, timestamp: Date.now()}\<close>. The field
  \<open>strategy\<close> is what the specification calls the tier.
\<close>

datatype strategy_tag = Tier nat | Failed

record healing_attempt =
  attempt_selectors :: selectors
  strategy :: strategy_tag
  success :: bool
  timestamp :: int

text \<open>
  \<^verbatim>\<open>new Error(`Element not found with selectors: ${JSON.stringify(selectors)}`)\<close>: the error
  carries the descriptor.
\<close>

datatype find_error = ElementNotFound selectors

text \<open>
  The loop over the strategies:
  \<^verbatim>\<open>
  for (let i = 0; i < strategies.length; i++) {
    try {
      const element = await strategies[i]();
      if (element && await element.count() > 0) { ...push...; return element; }
    } catch (error) { }
  }
  \<close>
  The result is the tier number \<open>i + 1\<close> and the element, or \<open>None\<close> when the loop ends.
\<close>

fun try_strategies :: "page \<Rightarrow> nat \<Rightarrow> (js_error + locator option) list \<Rightarrow> (nat \<times> locator) option" where
  "try_strategies pg i [] = None"
| "try_strategies pg i (s # ss) =
     (case s of
        Inr (Some element) \<Rightarrow>
          (case pg element of
             Inr count \<Rightarrow> if count > 0 then Some (i + 1, element) else try_strategies pg (i + 1) ss
           | Inl err \<Rightarrow> try_strategies pg (i + 1) ss)
      | Inr None \<Rightarrow> try_strategies pg (i + 1) ss
      | Inl err \<Rightarrow> try_strategies pg (i + 1) ss)"

text \<open>
  \<open>findElement\<close> takes the page, the clock reading of \<^verbatim>\<open>Date.now()\<close> and the ledger, and
  returns the new ledger with the element or the error.
\<close>

definition findElement ::
  "page \<Rightarrow> int \<Rightarrow> healing_attempt list \<Rightarrow> selectors \<Rightarrow> locator option
   \<Rightarrow> healing_attempt list \<times> (find_error + locator)" where
  "findElement pg now healingAttempts sel ctx =
     (case try_strategies pg 0 (strategies pg sel ctx) of
        Some (tier, element) \<Rightarrow>
          (healingAttempts @
             [\<lparr>attempt_selectors = sel, strategy = Tier tier, success = True, timestamp = now\<rparr>],
           Inr element)
      | None \<Rightarrow>
          (healingAttempts @
             [\<lparr>attempt_selectors = sel, strategy = Failed, success = False, timestamp = now\<rparr>],
           Inl (ElementNotFound sel)))"

text \<open>
  Scenario D: \<^verbatim>\<open>{testId: "x", css: ".y"}\<close> on a page where nothing has the test id and one
  element matches the CSS selector. On \<open>ambiguous_page\<close> two elements have the test id.
\<close>

definition no_hints :: selectors where
  "no_hints = \<lparr>testId = None, ident = None, css = None, xpath = None, text_hint = None,
     partialText = None, role = None, name_hint = None, description = None\<rparr>"

definition scenario_D_selectors :: selectors where
  "scenario_D_selectors = no_hints\<lparr>testId := Some ''x'', css := Some ''.y''\<rparr>"

definition testid_x :: locator where
  "testid_x = Locator None (''[data-testid='' @ [quote] @ ''x'' @ [quote] @ '']'')"

definition css_y :: locator where
  "css_y = Locator None ''.y''"

definition scenario_D_page :: page where
  "scenario_D_page l = (if l = css_y then Inr 1 else Inr 0)"

definition ambiguous_page :: page where
  "ambiguous_page l = (if l = testid_x then Inr 2 else if l = css_y then Inr 1 else Inr 0)"

definition empty_page :: page where
  "empty_page l = Inr 0"

text \<open>
  A descriptor with a test id, a CSS selector and a text, on a page where nothing has the
  test id, counting the CSS selector times out, and two elements carry the text.
\<close>

definition text_save_selectors :: selectors where
  "text_save_selectors = scenario_D_selectors\<lparr>text_hint := Some ''Save''\<rparr>"

definition text_save :: locator where
  "text_save = Locator None ''text=Save''"

definition flaky_page :: page where
  "flaky_page l =
     (if l = text_save then Inr 2 else if l = css_y then Inl (Error ''Timeout'') else Inr 0)"

section \<open>HTTP transport\<close>

text \<open>
  The HTTP client is an external collaborator. A request is what the code hands to it; the
  transport answers with a response of any status, or fails with a network error. Every
  request issued is appended to a log, so that the theorems can say which requests a
  resolution made. \<open>data\<close> is the parsed response body, \<open>None\<close> for \<^verbatim>\<open>null\<close>.
\<close>

datatype test_data = UserData | ProductData | BaseData | EmptyObject

record request =
  url :: string
  http_method :: string
  payload :: "test_data option"
  request_headers :: "(string \<times> string) list"

record response =
  status :: nat
  data :: "string option"
  headers :: "(string \<times> string) list"

type_synonym transport = "request \<Rightarrow> js_error + response"

text \<open>\<^verbatim>\<open>response.ok\<close>: the status is in the range 200 to 299.\<close>

definition ok :: "response \<Rightarrow> bool" where
  "ok resp = (200 \<le> status resp \<and> status resp \<le> 299)"

definition digit_char :: "nat \<Rightarrow> char" where
  "digit_char n = ''0123456789'' ! n"

fun show_nat :: "nat \<Rightarrow> string" where
  "show_nat n = (if n < 10 then [digit_char n] else show_nat (n div 10) @ [digit_char (n mod 10)])"

declare show_nat.simps [simp del]

text \<open>\<^verbatim>\<open>endpoint.replace(/\/$/, '')\<close>\<close>

definition strip_trailing_slash :: "string \<Rightarrow> string" where
  "strip_trailing_slash endpoint = (if endsWith endpoint ''/'' then butlast endpoint else endpoint)"

section \<open>self-healing-framework.js: SelfHealingAPI\<close>

text \<open>
  \<^verbatim>\<open>
  async executeRequest(endpoint, method, data = null) {
    const url = `${this.baseURL}${endpoint}`;
    const options = { method, headers: { 'Content-Type': 'application/json' } };
    if (data && ['POST', 'PUT', 'PATCH'].includes(method)) options.body = JSON.stringify(data);
    const response = await fetch(url, options);
    const responseData = await response.json().catch(() => null);
    if (!response.ok) throw new Error(`${method} ${endpoint} failed: ${response.status}`);
    return { status: response.status, data: responseData, headers: ... };
  }
  \<close>
  \<^verbatim>\<open>fetch\<close> rejects on a network error and resolves with a response of any status.
\<close>

definition executeRequest ::
  "transport \<Rightarrow> string \<Rightarrow> request list \<Rightarrow> string \<Rightarrow> string \<Rightarrow> test_data option
   \<Rightarrow> request list \<times> (js_error + response)" where
  "executeRequest fetch baseURL log endpoint method body =
     (let req = \<lparr>url = baseURL @ endpoint, http_method = method,
                 payload = (if body \<noteq> None \<and> method \<in> set [''POST'', ''PUT'', ''PATCH'']
                            then body else None),
                 request_headers = [(''Content-Type'', ''application/json'')]\<rparr>
      in case fetch req of
           Inl err \<Rightarrow> (log @ [req], Inl err)
         | Inr resp \<Rightarrow>
             if \<not> ok resp
             then (log @ [req],
                   Inl (Error (method @ '' '' @ endpoint @ '' failed: '' @ show_nat (status resp))))
             else (log @ [req], Inr resp))"

text \<open>
  The pluralising strategy is \<^verbatim>\<open>test.endpoint.replace(/(\w+)\/?$/, '$1s')\<close>: the leftmost
  position where a run of word characters reaches the end of the string, or a final
  slash; the run is kept, the slash dropped, and \<open>s\<close> appended. Without such a position
  the endpoint is unchanged.
\<close>

definition is_word_char :: "char \<Rightarrow> bool" where
  "is_word_char c =
     (c \<in> set ''abcdefghijklmnopqrstuvwxyzABCDEFGHIJKLMNOPQRSTUVWXYZ0123456789_'')"

definition word_at_end :: "string \<Rightarrow> bool" where
  "word_at_end xs =
     (takeWhile is_word_char xs \<noteq> []
      \<and> (dropWhile is_word_char xs = [] \<or> dropWhile is_word_char xs = ''/''))"

fun append_s :: "string \<Rightarrow> string" where
  "append_s [] = []"
| "append_s (c # cs) =
     (if word_at_end (c # cs) then takeWhile is_word_char (c # cs) @ ''s''
      else c # append_s cs)"

text \<open>
  The endpoints of the five strategies of \<^verbatim>\<open>executeWithFallbacks\<close>, in the order of the
  array: exact, \<^verbatim>\<open>/v1\<close>, \<^verbatim>\<open>/v2\<close>, pluralised, without trailing slash.
\<close>

definition fallback_endpoints :: "string \<Rightarrow> string list" where
  "fallback_endpoints endpoint =
     [endpoint, ''/v1'' @ endpoint, ''/v2'' @ endpoint, append_s endpoint,
      strip_trailing_slash endpoint]"

record api_test =
  test_endpoint :: string
  test_method :: string
  focusOn :: "string option"

text \<open>\<^verbatim>\<open>{...test, ...result, success: true, healingStrategy: i, healed: i > 0}\<close>\<close>

record fallback_result =
  test :: api_test
  result :: response
  succeeded :: bool
  healingStrategy :: nat
  healed :: bool

text \<open>
  The loop of \<^verbatim>\<open>executeWithFallbacks\<close>. \<^verbatim>\<open>lastError\<close> is \<^verbatim>\<open>undefined\<close> (\<open>None\<close>) until a
  strategy has thrown; when the strategies are used up, \<^verbatim>\<open>throw lastError\<close>.
\<close>

fun try_endpoints ::
  "transport \<Rightarrow> string \<Rightarrow> string \<Rightarrow> nat \<Rightarrow> request list \<Rightarrow> js_error option \<Rightarrow> string list
   \<Rightarrow> request list \<times> (js_error option + nat \<times> response)" where
  "try_endpoints fetch baseURL method i log lastError [] = (log, Inl lastError)"
| "try_endpoints fetch baseURL method i log lastError (e # es) =
     (case executeRequest fetch baseURL log e method None of
        (log', Inr resp) \<Rightarrow> (log', Inr (i, resp))
      | (log', Inl err) \<Rightarrow> try_endpoints fetch baseURL method (i + 1) log' (Some err) es)"

definition executeWithFallbacks ::
  "transport \<Rightarrow> string \<Rightarrow> request list \<Rightarrow> api_test
   \<Rightarrow> request list \<times> (js_error option + fallback_result)" where
  "executeWithFallbacks fetch baseURL log t =
     (case try_endpoints fetch baseURL (test_method t) 0 log None
             (fallback_endpoints (test_endpoint t)) of
        (log', Inr (i, resp)) \<Rightarrow>
          (log', Inr \<lparr>test = t, result = resp, succeeded = True, healingStrategy = i,
                      healed = (i > 0)\<rparr>)
      | (log', Inl lastError) \<Rightarrow> (log', Inl lastError))"

text \<open>
  What a strategy throws for an endpoint: the network error, or the error for a status
  outside 200 to 299. \<open>None\<close> when the strategy succeeds.
\<close>

definition tier_error :: "transport \<Rightarrow> string \<Rightarrow> string \<Rightarrow> string \<Rightarrow> js_error option" where
  "tier_error fetch baseURL method endpoint =
     (case snd (executeRequest fetch baseURL [] endpoint method None) of
        Inl err \<Rightarrow> Some err
      | Inr resp \<Rightarrow> None)"

definition plain_response :: "nat \<Rightarrow> response" where
  "plain_response st = \<lparr>status = st, data = None, headers = []\<rparr>"

text \<open>A server that knows \<^verbatim>\<open>/v1/widget\<close> and answers 404 to everything else.\<close>

definition v1_server :: transport where
  "v1_server req =
     (if url req = ''http://localhost:3000/v1/widget'' then Inr (plain_response 200)
      else Inr (plain_response 404))"

text \<open>A server that cannot be reached.\<close>

definition unreachable :: transport where
  "unreachable req = Inl (Error ''fetch failed'')"

definition widget_test :: api_test where
  "widget_test = \<lparr>test_endpoint = ''/widget'', test_method = ''GET'', focusOn = None\<rparr>"

definition widget_slash_test :: api_test where
  "widget_slash_test = \<lparr>test_endpoint = ''/widget/'', test_method = ''GET'', focusOn = None\<rparr>"

text \<open>The request that \<open>executeRequest\<close> issues when called without data.\<close>

definition fetch_request :: "string \<Rightarrow> string \<Rightarrow> string \<Rightarrow> request" where
  "fetch_request baseURL method endpoint =
     \<lparr>url = baseURL @ endpoint, http_method = method, payload = None,
      request_headers = [(''Content-Type'', ''application/json'')]\<rparr>"

section \<open>api-tester.js: APITester.testChangedEndpoint\<close>

text \<open>\<^verbatim>\<open>s.toLowerCase()\<close> on ASCII.\<close>

definition toLowerCase :: "string \<Rightarrow> string" where
  "toLowerCase s =
     map (\<lambda>c. case map_of (zip ''ABCDEFGHIJKLMNOPQRSTUVWXYZ'' ''abcdefghijklmnopqrstuvwxyz'') c of
                 None \<Rightarrow> c | Some l \<Rightarrow> l) s"

text \<open>\<^verbatim>\<open>s.replace(pat, rep)\<close> with a string pattern: the first occurrence only.\<close>

fun replace_first :: "string \<Rightarrow> string \<Rightarrow> string \<Rightarrow> string" where
  "replace_first [] pat rep = (if pat = [] then rep else [])"
| "replace_first (c # cs) pat rep =
     (if startsWith (c # cs) pat then rep @ drop (length pat) (c # cs)
      else c # replace_first cs pat rep)"

text \<open>
  An entry of \<^verbatim>\<open>getAPIChanges()\<close>. \<open>change_function\<close> is the field \<^verbatim>\<open>function\<close>; the
  change type is the string read from the analysis file.
\<close>

record api_change =
  change_file :: string
  change_function :: string
  changeType :: string
  change_lines :: line_changes
  endpoint :: string
  change_method :: string

text \<open>The array \<^verbatim>\<open>healingStrategies\<close>: URL and \<^verbatim>\<open>version\<close> of each tier, in order.\<close>

definition healingStrategies :: "api_change \<Rightarrow> (string \<times> string) list" where
  "healingStrategies change =
     [(endpoint change, ''''),
      (''/api'' @ endpoint change, ''api-prefix''),
      (''/v1'' @ endpoint change, ''v1''),
      (''/v2'' @ endpoint change, ''v2''),
      (strip_trailing_slash (endpoint change), ''no-trailing-slash''),
      (pluralizeEndpoint (endpoint change), ''pluralized'')]"

text \<open>
  A test case. \<open>case_endpoint\<close>, \<open>case_data\<close> and \<open>case_headers\<close> are \<open>None\<close> where the
  object literal has no such field (or has \<^verbatim>\<open>data: null\<close>).
\<close>

record test_case =
  case_name :: string
  case_endpoint :: "string option"
  case_data :: "test_data option"
  case_headers :: "(string \<times> string) list option"
  expectedStatus :: nat
  validations :: "string list"

definition generateTestData :: "api_change \<Rightarrow> test_data" where
  "generateTestData change =
     (if includes_str (change_function change) ''user'' \<or> includes_str (change_file change) ''user''
      then UserData
      else if includes_str (change_function change) ''product''
              \<or> includes_str (change_file change) ''product''
      then ProductData
      else BaseData)"

definition hasAuthChanges :: "api_change \<Rightarrow> bool" where
  "hasAuthChanges change =
     list_ex (\<lambda>keyword. includes_str (toLowerCase (change_function change)) keyword
                       \<or> includes_str (toLowerCase (change_file change)) keyword)
       [''auth'', ''token'', ''jwt'', ''session'', ''permission'', ''role'']"

definition generateTestCases :: "string \<Rightarrow> api_change \<Rightarrow> test_case list" where
  "generateTestCases m change =
     (if m = ''GET'' then
        [\<lparr>case_name = ''Get resource'', case_endpoint = None, case_data = None,
          case_headers = None, expectedStatus = 200,
          validations = [''hasData'', ''correctFormat'']\<rparr>] @
        (if includes_str (change_function change) ''Id'' \<or> includes_str (endpoint change) '':id''
         then
           [\<lparr>case_name = ''Get by ID'',
             case_endpoint = Some (replace_first (endpoint change) '':id'' ''1''),
             case_data = None, case_headers = None, expectedStatus = 200,
             validations = [''hasId'', ''correctFormat'']\<rparr>,
            \<lparr>case_name = ''Get non-existent'',
             case_endpoint = Some (replace_first (endpoint change) '':id'' ''999999''),
             case_data = None, case_headers = None, expectedStatus = 404,
             validations = [''errorFormat'']\<rparr>]
         else [])
      else if m = ''POST'' then
        [\<lparr>case_name = ''Create valid'', case_endpoint = None,
          case_data = Some (generateTestData change), case_headers = None,
          expectedStatus = 201, validations = [''hasId'', ''dataMatches'']\<rparr>,
         \<lparr>case_name = ''Create invalid'', case_endpoint = None,
          case_data = Some EmptyObject, case_headers = None,
          expectedStatus = 400, validations = [''errorFormat'', ''hasValidationErrors'']\<rparr>]
      else if m = ''PUT'' \<or> m = ''PATCH'' then
        [\<lparr>case_name = ''Update valid'',
          case_endpoint = Some (replace_first (endpoint change) '':id'' ''1''),
          case_data = Some (generateTestData change), case_headers = None,
          expectedStatus = 200, validations = [''dataUpdated'']\<rparr>,
         \<lparr>case_name = ''Update non-existent'',
          case_endpoint = Some (replace_first (endpoint change) '':id'' ''999999''),
          case_data = Some (generateTestData change), case_headers = None,
          expectedStatus = 404, validations = [''errorFormat'']\<rparr>]
      else if m = ''DELETE'' then
        [\<lparr>case_name = ''Delete existing'',
          case_endpoint = Some (replace_first (endpoint change) '':id'' ''1''),
          case_data = None, case_headers = None, expectedStatus = 204, validations = []\<rparr>,
         \<lparr>case_name = ''Delete non-existent'',
          case_endpoint = Some (replace_first (endpoint change) '':id'' ''999999''),
          case_data = None, case_headers = None, expectedStatus = 404,
          validations = [''errorFormat'']\<rparr>]
      else [])
     @ (if hasAuthChanges change
        then [\<lparr>case_name = ''Unauthorized access'', case_endpoint = None, case_data = None,
               case_headers = Some [], expectedStatus = 401,
               validations = [''errorFormat'']\<rparr>]
        else [])"

text \<open>
  \<^verbatim>\<open>makeRequest(url, method, data = null, headers = {})\<close> through axios with
  \<^verbatim>\<open>validateStatus: () => true\<close>: any status is a response, only a network failure
  throws.
\<close>

definition makeRequest ::
  "transport \<Rightarrow> request list \<Rightarrow> string \<Rightarrow> string \<Rightarrow> test_data option \<Rightarrow> (string \<times> string) list
   \<Rightarrow> request list \<times> (js_error + response)" where
  "makeRequest axios log u m d hs =
     (let req = \<lparr>url = u, http_method = m,
                 payload = (if d \<noteq> None \<and> m \<in> set [''POST'', ''PUT'', ''PATCH''] then d else None),
                 request_headers =
                   [(''Content-Type'', ''application/json''), (''Accept'', ''application/json'')] @ hs\<rparr>
      in (log @ [req], axios req))"

text \<open>
  \<^verbatim>\<open>runValidation(validation, response, change)\<close> inspects the response body, which the
  model keeps opaque; it is a parameter \<open>rv\<close> of the functions below.
  \<open>validateResponse\<close> succeeds when the status is the expected one and every validation
  passes; its details are the pairs of validation name and outcome.
\<close>

type_synonym validator = "string \<Rightarrow> response \<Rightarrow> api_change \<Rightarrow> bool"

definition validateResponse ::
  "validator \<Rightarrow> response \<Rightarrow> nat \<Rightarrow> string list \<Rightarrow> api_change \<Rightarrow> bool \<times> (string \<times> bool) list" where
  "validateResponse rv resp expected vs change =
     (let details = (''status'', status resp = expected) # map (\<lambda>v. (v, rv v resp change)) vs
      in (list_all snd details, details))"

text \<open>An entry of \<^verbatim>\<open>results\<close> in \<open>executeEndpointTest\<close> (without the duration).\<close>

record case_result =
  result_case :: string
  result_success :: bool
  result_status :: "nat option"
  result_error :: "string option"
  result_validations :: "(string \<times> bool) list"

definition error_message :: "js_error \<Rightarrow> string" where
  "error_message err = (case err of Error msg \<Rightarrow> msg)"

text \<open>
  The loop \<^verbatim>\<open>for (const testCase of testCases)\<close>. Each case sends one request to the
  same \<^verbatim>\<open>url\<close> (the field \<^verbatim>\<open>testCase.endpoint\<close> is not read). The body of the loop is
  inside \<^verbatim>\<open>try\<close>/\<^verbatim>\<open>catch\<close>: a failed request becomes a result with
  \<^verbatim>\<open>success: false\<close>.
\<close>

fun run_cases ::
  "validator \<Rightarrow> transport \<Rightarrow> string \<Rightarrow> string \<Rightarrow> api_change \<Rightarrow> request list \<Rightarrow> test_case list
   \<Rightarrow> request list \<times> case_result list" where
  "run_cases rv axios u m change log [] = (log, [])"
| "run_cases rv axios u m change log (tc # tcs) =
     (case makeRequest axios log u m (case_data tc)
             (case case_headers tc of None \<Rightarrow> [] | Some hs \<Rightarrow> hs) of
        (log', answer) \<Rightarrow>
          (case run_cases rv axios u m change log' tcs of
             (log'', rest) \<Rightarrow>
               (log'',
                (case answer of
                   Inr resp \<Rightarrow>
                     (case validateResponse rv resp (expectedStatus tc) (validations tc) change of
                        (good, details) \<Rightarrow>
                          \<lparr>result_case = case_name tc, result_success = good,
                           result_status = Some (status resp), result_error = None,
                           result_validations = details\<rparr>)
                 | Inl err \<Rightarrow>
                     \<lparr>result_case = case_name tc, result_success = False,
                      result_status = None, result_error = Some (error_message err),
                      result_validations = []\<rparr>) # rest)))"

record endpoint_test =
  tested_endpoint :: string
  tested_method :: string
  case_results :: "case_result list"
  all_passed :: bool

text \<open>
  \<open>executeEndpointTest\<close> has no \<^verbatim>\<open>throw\<close> and nothing outside the loop's
  \<^verbatim>\<open>try\<close> that can throw, so it always returns (\<open>Inr\<close>); the result type keeps the
  caller's \<^verbatim>\<open>try\<close>/\<^verbatim>\<open>catch\<close> visible.
\<close>

definition executeEndpointTest ::
  "validator \<Rightarrow> transport \<Rightarrow> string \<Rightarrow> request list \<Rightarrow> string \<Rightarrow> string \<Rightarrow> api_change
   \<Rightarrow> request list \<times> (js_error + endpoint_test)" where
  "executeEndpointTest rv axios baseURL log ep m change =
     (case run_cases rv axios (baseURL @ ep) m change log (generateTestCases m change) of
        (log', results) \<Rightarrow>
          (log', Inr \<lparr>tested_endpoint = ep, tested_method = m, case_results = results,
                      all_passed = list_all result_success results\<rparr>))"

text \<open>
  The loop over \<^verbatim>\<open>healingStrategies\<close>:
  \<^verbatim>\<open>
  for (const strategy of healingStrategies) {
    try {
      const testResult = await this.executeEndpointTest(strategy.url, change.method, change);
      result.tests.push({...testResult, healingStrategy: strategy.version, ...});
      success = true; healingUsed = strategy.version; break;
    } catch (error) { }
  }
  \<close>
  The call \<^verbatim>\<open>this.executeEndpointTest(strategy.url, change.method, change)\<close> is the
  parameter \<open>tier_test\<close>: for a URL it gives the requests that the call issues and its
  result, or the error it throws. The first strategy whose test does not throw is recorded
  with its \<^verbatim>\<open>version\<close>, and the loop breaks.
\<close>

fun try_healing ::
  "(string \<Rightarrow> request list \<times> (js_error + endpoint_test)) \<Rightarrow> request list
   \<Rightarrow> (string \<times> string) list \<Rightarrow> request list \<times> (endpoint_test \<times> string) option" where
  "try_healing tier_test log [] = (log, None)"
| "try_healing tier_test log ((u, version) # rest) =
     (case tier_test u of
        (reqs, Inr testResult) \<Rightarrow> (log @ reqs, Some (testResult, version))
      | (reqs, Inl err) \<Rightarrow> try_healing tier_test (log @ reqs) rest)"

record test_entry =
  entry_result :: endpoint_test
  entry_healingStrategy :: string
  entry_healed :: bool

record change_result =
  result_name :: string
  result_file :: string
  result_function :: string
  result_endpoint :: string
  result_method :: string
  result_changeType :: string
  tests :: "test_entry list"
  overall_success :: bool
  healingUsed :: "string option"

text \<open>
  \<open>testChangedEndpoint\<close> transforms the request log and \<^verbatim>\<open>this.results\<close>. The test of a
  tier is \<open>executeEndpointTest\<close>; what it adds to an empty log are the requests it issues.
\<close>

definition testChangedEndpoint ::
  "validator \<Rightarrow> transport \<Rightarrow> string \<Rightarrow> request list \<times> change_result list \<Rightarrow> api_change
   \<Rightarrow> request list \<times> change_result list" where
  "testChangedEndpoint rv axios baseURL state change =
     (case try_healing
             (\<lambda>u. executeEndpointTest rv axios baseURL [] u (change_method change) change)
             (fst state) (healingStrategies change) of
        (log', outcome) \<Rightarrow>
          (log',
           snd state @
           [\<lparr>result_name = ''API: '' @ change_function change @ '' ('' @ changeType change @ '')'',
             result_file = change_file change,
             result_function = change_function change,
             result_endpoint = endpoint change,
             result_method = change_method change,
             result_changeType = changeType change,
             tests = (case outcome of
                        None \<Rightarrow> []
                      | Some (testResult, version) \<Rightarrow>
                          [\<lparr>entry_result = testResult, entry_healingStrategy = version,
                            entry_healed = (version \<noteq> '''')\<rparr>]),
             overall_success = (outcome \<noteq> None),
             healingUsed = map_option snd outcome\<rparr>]))"

definition get_user_change :: api_change where
  "get_user_change =
     \<lparr>change_file = ''src/api/users.js'', change_function = ''getUserById'',
      changeType = ''modified'',
      change_lines = \<lparr>added = [], deleted = [], modified = [12]\<rparr>,
      endpoint = ''/users/:id'', change_method = ''GET''\<rparr>"

definition no_validation :: validator where
  "no_validation v resp change = True"

text \<open>A server that knows \<^verbatim>\<open>/widget\<close> itself.\<close>

definition exact_server :: transport where
  "exact_server req =
     (if url req = ''http://localhost:3000/widget'' then Inr (plain_response 200)
      else Inr (plain_response 404))"

text \<open>
  A tier test that issues one request to the URL and throws, except for \<^verbatim>\<open>/v1/users/:id\<close>.
\<close>

definition v1_result :: endpoint_test where
  "v1_result = \<lparr>tested_endpoint = ''/v1/users/:id'', tested_method = ''GET'',
     case_results = [], all_passed = True\<rparr>"

definition throwing_until_v1 :: "string \<Rightarrow> request list \<times> (js_error + endpoint_test)" where
  "throwing_until_v1 u =
     ([fetch_request ''http://localhost:3000'' ''GET'' u],
      if u = ''/v1/users/:id'' then Inr v1_result else Inl (Error ''connect ECONNREFUSED''))"

text \<open>A server that knows only the pluralised \<^verbatim>\<open>/widgets\<close>.\<close>

definition plural_server :: transport where
  "plural_server req =
     (if url req = ''http://localhost:3000/widgets'' then Inr (plain_response 200)
      else Inr (plain_response 404))"

section \<open>deriveEndpoint and deriveHTTPMethod\<close>

text \<open>
  Both \<open>APITester\<close> and \<open>ChangeAwareTestGenerator\<close> start with
  \<^verbatim>\<open>
  const basePath = file.replace(/^.*\/(api|services)\//, '').replace(/\.[^/.]+$/, '');
  const resource = basePath.split('/').pop();
  \<close>
  The first pattern is anchored at the start; its greedy \<^verbatim>\<open>.*\<close> (any characters but line
  terminators) makes the match end at the last \<^verbatim>\<open>/api/\<close> or \<^verbatim>\<open>/services/\<close> that it
  can reach. \<open>after_api_prefix\<close> returns what follows the match, preferring the longer
  \<^verbatim>\<open>.*\<close> as the regular expression does. The second pattern removes a final dot with
  at least one character after it, none of them a dot or a slash.
\<close>

definition is_line_terminator :: "char \<Rightarrow> bool" where
  "is_line_terminator c = (c = CHR 0x0A \<or> c = CHR 0x0D)"

fun after_api_prefix :: "string \<Rightarrow> string option" where
  "after_api_prefix [] = None"
| "after_api_prefix (c # cs) =
     (case (if is_line_terminator c then None else after_api_prefix cs) of
        Some r \<Rightarrow> Some r
      | None \<Rightarrow>
          if startsWith (c # cs) ''/api/'' then Some (drop 5 (c # cs))
          else if startsWith (c # cs) ''/services/'' then Some (drop 10 (c # cs))
          else None)"

definition strip_api_prefix :: "string \<Rightarrow> string" where
  "strip_api_prefix file = (case after_api_prefix file of None \<Rightarrow> file | Some r \<Rightarrow> r)"

fun strip_extension :: "string \<Rightarrow> string" where
  "strip_extension [] = []"
| "strip_extension (c # cs) =
     (if c = CHR ''.'' \<and> cs \<noteq> [] \<and> list_all (\<lambda>x. x \<noteq> CHR ''/'' \<and> x \<noteq> CHR ''.'') cs
      then []
      else c # strip_extension cs)"

definition resource :: "string \<Rightarrow> string" where
  "resource file = last (split_on CHR ''/'' (strip_extension (strip_api_prefix file)))"

text \<open>
  api-tester.js:
  \<^verbatim>\<open>
  if (funcName.includes('Id') || funcName.includes('ById')) return `/${resource}/:id`;
  return `/${resource}`;
  \<close>
\<close>

definition APITester_deriveEndpoint :: "string \<Rightarrow> string \<Rightarrow> string" where
  "APITester_deriveEndpoint file funcName =
     (if includes_str funcName ''Id'' \<or> includes_str funcName ''ById''
      then ''/'' @ resource file @ ''/:id''
      else ''/'' @ resource file)"

definition APITester_deriveHTTPMethod :: "string \<Rightarrow> string" where
  "APITester_deriveHTTPMethod funcName =
     (let lower = toLowerCase funcName in
      if includes_str lower ''get'' \<or> includes_str lower ''fetch'' \<or> includes_str lower ''find''
      then ''GET''
      else if includes_str lower ''post'' \<or> includes_str lower ''create''
              \<or> includes_str lower ''add''
      then ''POST''
      else if includes_str lower ''put'' \<or> includes_str lower ''update'' then ''PUT''
      else if includes_str lower ''patch'' then ''PATCH''
      else if includes_str lower ''delete'' \<or> includes_str lower ''remove'' then ''DELETE''
      else ''GET'')"

text \<open>
  self-healing-framework.js, \<open>ChangeAwareTestGenerator\<close>: the endpoint carries the prefix
  \<^verbatim>\<open>/api\<close>, and \<^verbatim>\<open>/:id\<close> depends on the kind of operation.
\<close>

definition Generator_deriveEndpoint :: "string \<Rightarrow> string \<Rightarrow> string" where
  "Generator_deriveEndpoint file funcName =
     (if includes_str funcName ''get'' \<and> includes_str funcName ''Id''
      then ''/api/'' @ resource file @ ''/:id''
      else if includes_str funcName ''get'' then ''/api/'' @ resource file
      else if includes_str funcName ''create'' \<or> includes_str funcName ''post''
      then ''/api/'' @ resource file
      else if includes_str funcName ''update'' \<or> includes_str funcName ''put''
      then ''/api/'' @ resource file @ ''/:id''
      else if includes_str funcName ''delete'' then ''/api/'' @ resource file @ ''/:id''
      else ''/api/'' @ resource file)"

definition Generator_deriveHTTPMethod :: "string \<Rightarrow> string" where
  "Generator_deriveHTTPMethod funcName =
     (let lowerFunc = toLowerCase funcName in
      if includes_str lowerFunc ''get'' \<or> includes_str lowerFunc ''fetch'' then ''GET''
      else if includes_str lowerFunc ''post'' \<or> includes_str lowerFunc ''create'' then ''POST''
      else if includes_str lowerFunc ''put'' \<or> includes_str lowerFunc ''update'' then ''PUT''
      else if includes_str lowerFunc ''patch'' then ''PATCH''
      else if includes_str lowerFunc ''delete'' \<or> includes_str lowerFunc ''remove''
      then ''DELETE''
      else ''GET'')"

text \<open>
  The derivation in the specification's words: the resource is the last path segment of
  the file without its extension, and the method is given by the first row of a rule
  table with a keyword that occurs in the lower-cased name.
\<close>

definition last_segment :: "string \<Rightarrow> string" where
  "last_segment file = rev (takeWhile (\<lambda>c. c \<noteq> CHR ''/'') (rev file))"

definition spec_resource :: "string \<Rightarrow> string" where
  "spec_resource file = strip_extension (last_segment file)"

definition method_rules :: "(string list \<times> string) list" where
  "method_rules =
     [([''get'', ''fetch'', ''find''], ''GET''),
      ([''post'', ''create'', ''add''], ''POST''),
      ([''put'', ''update''], ''PUT''),
      ([''patch''], ''PATCH''),
      ([''delete'', ''remove''], ''DELETE'')]"

definition first_rule :: "(string list \<times> string) list \<Rightarrow> string \<Rightarrow> string" where
  "first_rule rules funcName =
     (case find (\<lambda>rule. list_ex (includes_str (toLowerCase funcName)) (fst rule)) rules of
        None \<Rightarrow> ''GET''
      | Some rule \<Rightarrow> snd rule)"

text \<open>The rule table of \<open>ChangeAwareTestGenerator.deriveHTTPMethod\<close>.\<close>

definition generator_method_rules :: "(string list \<times> string) list" where
  "generator_method_rules =
     [([''get'', ''fetch''], ''GET''),
      ([''post'', ''create''], ''POST''),
      ([''put'', ''update''], ''PUT''),
      ([''patch''], ''PATCH''),
      ([''delete'', ''remove''], ''DELETE'')]"

section \<open>self-healing-framework.js: ChangeAwareTestGenerator.generateUITests\<close>

text \<open>
  The part of a file's entry in the change analysis that \<open>generateUITests\<close> reads:
  \<^verbatim>\<open>changes.lines\<close> and \<^verbatim>\<open>Object.entries(changes.functions)\<close>, the declarations with their
  change types in the order of the object.
\<close>

record file_changes =
  changed :: line_changes
  changed_functions :: "(string \<times> string) list"

record selector_hints =
  hint_testId :: string
  hint_css :: string
  hint_role :: string
  hint_description :: string
  fallback_text :: string
  fallback_partialText :: string

record action =
  action_type :: string
  action_value :: "string option"
  verify :: string

text \<open>
  \<open>startLine\<close> and \<open>endLine\<close> are \<open>None\<close> where JavaScript has \<^verbatim>\<open>Infinity\<close> and
  \<^verbatim>\<open>-Infinity\<close>, the values of \<^verbatim>\<open>Math.min()\<close> and \<^verbatim>\<open>Math.max()\<close> without arguments.
\<close>

record target_area =
  startLine :: "int option"
  endLine :: "int option"
  scope :: string

record ui_test =
  ui_name :: string
  ui_file :: string
  ui_function :: string
  ui_changeType :: string
  targetLines :: "int list"
  ui_selectors :: selector_hints
  actions :: "action list"

text \<open>\<open>threshold_tenths = 1\<close> stands for \<^verbatim>\<open>threshold: 0.1\<close>.\<close>

record visual_test =
  visual_name :: string
  visual_file :: string
  targetArea :: target_area
  threshold_tenths :: nat

datatype test_target = UITest ui_test | VisualTest visual_test

definition is_visual :: "test_target \<Rightarrow> bool" where
  "is_visual t = (case t of VisualTest v \<Rightarrow> True | UITest u \<Rightarrow> False)"

definition inferRole :: "string \<Rightarrow> string" where
  "inferRole funcName =
     (if includes_str funcName ''button'' \<or> includes_str funcName ''click'' then ''button''
      else if includes_str funcName ''input'' \<or> includes_str funcName ''field'' then ''textbox''
      else if includes_str funcName ''select'' \<or> includes_str funcName ''dropdown''
      then ''combobox''
      else if includes_str funcName ''check'' then ''checkbox''
      else if includes_str funcName ''radio'' then ''radio''
      else if includes_str funcName ''link'' then ''link''
      else ''button'')"

text \<open>\<^verbatim>\<open>funcName.replace(/([A-Z])/g, ' $1').trim()\<close>\<close>

definition space_capitals :: "string \<Rightarrow> string" where
  "space_capitals s =
     concat (map (\<lambda>c. if c \<in> set ''ABCDEFGHIJKLMNOPQRSTUVWXYZ'' then [CHR '' '', c] else [c]) s)"

definition is_space :: "char \<Rightarrow> bool" where
  "is_space c = (c \<in> set [CHR '' '', CHR 0x09, CHR 0x0A, CHR 0x0B, CHR 0x0C, CHR 0x0D])"

definition trim :: "string \<Rightarrow> string" where
  "trim s = rev (dropWhile is_space (rev (dropWhile is_space s)))"

text \<open>
  \<open>componentName\<close> is \<^verbatim>\<open>path.basename(file, path.extname(file))\<close> of Node's path
  module, a parameter of the model.
\<close>

definition generateSelectors :: "(string \<Rightarrow> string) \<Rightarrow> string \<Rightarrow> string \<Rightarrow> selector_hints" where
  "generateSelectors componentName path funcName =
     \<lparr>hint_testId = toLowerCase (componentName path @ ''-'' @ funcName),
      hint_css = ''.'' @ componentName path,
      hint_role = inferRole funcName,
      hint_description = componentName path @ '' '' @ funcName,
      fallback_text = trim (space_capitals funcName),
      fallback_partialText = componentName path\<rparr>"

definition generateActions :: "string \<Rightarrow> file_changes \<Rightarrow> action list" where
  "generateActions funcName changes =
     (if includes_str funcName ''handle'' \<or> includes_str funcName ''on''
      then [\<lparr>action_type = ''click'', action_value = None, verify = ''response''\<rparr>] else [])
     @ (if includes_str funcName ''validate'' \<or> includes_str funcName ''check''
        then [\<lparr>action_type = ''input'', action_value = Some ''test'', verify = ''validation''\<rparr>]
        else [])
     @ (if includes_str funcName ''submit'' \<or> includes_str funcName ''save''
        then [\<lparr>action_type = ''submit'', action_value = None, verify = ''success''\<rparr>] else [])"

text \<open>\<^verbatim>\<open>Math.min(...xs)\<close> and \<^verbatim>\<open>Math.max(...xs)\<close>\<close>

definition math_min :: "int list \<Rightarrow> int option" where
  "math_min xs = (case xs of [] \<Rightarrow> None | x # rest \<Rightarrow> Some (fold min rest x))"

definition math_max :: "int list \<Rightarrow> int option" where
  "math_max xs = (case xs of [] \<Rightarrow> None | x # rest \<Rightarrow> Some (fold max rest x))"

text \<open>
  \<^verbatim>\<open>
  const minLine = Math.min(...changes.lines.modified, ...changes.lines.added);
  const maxLine = Math.max(...changes.lines.modified, ...changes.lines.added);
  return { startLine: minLine, endLine: maxLine,
           scope: maxLine - minLine > 50 ? 'component' : 'partial' };
  \<close>
  Without any line, \<^verbatim>\<open>-Infinity - Infinity > 50\<close> is false.
\<close>

definition calculateUIImpactArea :: "file_changes \<Rightarrow> target_area" where
  "calculateUIImpactArea changes =
     (let minLine = math_min (modified (changed changes) @ added (changed changes));
          maxLine = math_max (modified (changed changes) @ added (changed changes))
      in \<lparr>startLine = minLine, endLine = maxLine,
          scope = (case (minLine, maxLine) of
                     (Some lo, Some hi) \<Rightarrow> if hi - lo > 50 then ''component'' else ''partial''
                   | _ \<Rightarrow> ''partial'')\<rparr>)"

definition generateUITests :: "(string \<Rightarrow> string) \<Rightarrow> string \<Rightarrow> file_changes \<Rightarrow> test_target list" where
  "generateUITests componentName path changes =
     map (\<lambda>(funcName, changeType).
            UITest \<lparr>ui_name = ''UI Test: '' @ funcName @ '' in '' @ path,
                    ui_file = path,
                    ui_function = funcName,
                    ui_changeType = changeType,
                    targetLines = modified (changed changes),
                    ui_selectors = generateSelectors componentName path funcName,
                    actions = generateActions funcName changes\<rparr>)
       (filter (\<lambda>(funcName, changeType). changeType \<noteq> ''deleted'') (changed_functions changes))
     @ (if length (modified (changed changes)) > 10 \<or> length (added (changed changes)) > 10
        then [VisualTest \<lparr>visual_name = ''Visual Test: '' @ path, visual_file = path,
                          targetArea = calculateUIImpactArea changes, threshold_tenths = 1\<rparr>]
        else [])"

text \<open>Six modified and six added lines: twelve changed lines, neither list longer than ten.\<close>

definition six_and_six :: file_changes where
  "six_and_six =
     \<lparr>changed = \<lparr>added = [10, 11, 12, 13, 14, 15], deleted = [],
                 modified = [1, 2, 3, 4, 5, 6]\<rparr>,
      changed_functions = [(''handleClick'', ''modified'')]\<rparr>"

text \<open>Eleven modified lines next to each other, and eleven added lines spread over a file.\<close>

definition eleven_close :: file_changes where
  "eleven_close =
     \<lparr>changed = \<lparr>added = [], deleted = [],
                 modified = [20, 21, 22, 23, 24, 25, 26, 27, 28, 29, 30]\<rparr>,
      changed_functions = [(''handleClick'', ''modified''), (''oldHelper'', ''deleted'')]\<rparr>"

definition eleven_spread :: file_changes where
  "eleven_spread =
     \<lparr>changed = \<lparr>added = [5, 15, 25, 35, 45, 55, 65, 75, 85, 95, 105], deleted = [],
                 modified = []\<rparr>,
      changed_functions = [(''validateInput'', ''added'')]\<rparr>"

definition button_component :: "string \<Rightarrow> string" where
  "button_component path = ''Button''"

section \<open>Properties of the string primitives\<close>

lemma startsWith_prefix: "startsWith s p \<longleftrightarrow> (\<exists>r. s = p @ r)"
  by (induction s p rule: startsWith.induct) auto

lemma endsWith_single: "endsWith s [c] \<longleftrightarrow> (s \<noteq> [] \<and> last s = c)"
  by (cases s rule: rev_cases) (simp_all add: endsWith_def)

section \<open>The line-change parser\<close>

lemma find_adjacent_None: "find_adjacent a ds = None \<Longrightarrow> \<forall>d\<in>set ds. 1 < \<bar>a - d\<bar>"
  by (induction ds) (auto split: if_splits)

lemma set_splice1: "set (splice1 j xs) \<subseteq> set xs"
  by (auto simp: splice1_def dest: in_set_takeD in_set_dropD)

lemma splice1_nth: "k < i \<Longrightarrow> i < length xs \<Longrightarrow> splice1 i xs ! k = xs ! k"
  by (simp add: splice1_def nth_append)

text \<open>
  The loop invariant: every added line before index \<open>i\<close> is more than one line away from
  every deleted line that is left. Deleted lines are only ever removed, so the invariant
  survives a pairing.
\<close>

lemma reconcile_separated:
  "(\<forall>k<i. k < length (added ls) \<longrightarrow> (\<forall>d\<in>set (deleted ls). 1 < \<bar>added ls ! k - d\<bar>))
   \<Longrightarrow> a \<in> set (added (reconcile i ls)) \<Longrightarrow> d \<in> set (deleted (reconcile i ls))
   \<Longrightarrow> 1 < \<bar>a - d\<bar>"
proof (induction i ls rule: reconcile.induct)
  case (1 i ls)
  show ?case
  proof (cases "i < length (added ls)")
    case False
    then have same: "reconcile i ls = ls"
      by (simp add: reconcile.simps [of i ls])
    with "1.prems"(2) obtain k where k: "k < length (added ls)" "a = added ls ! k"
      by (auto simp: in_set_conv_nth)
    with False have "k < i" by simp
    with "1.prems"(1,3) k same show ?thesis by simp
  next
    case True
    show ?thesis
    proof (cases "find_adjacent (added ls ! i) (deleted ls)")
      case None
      have "\<forall>k<Suc i. k < length (added ls) \<longrightarrow>
              (\<forall>d\<in>set (deleted ls). 1 < \<bar>added ls ! k - d\<bar>)"
        using "1.prems"(1) find_adjacent_None [OF None] by (auto simp: less_Suc_eq)
      from "1.IH"(1) [OF True None this] "1.prems"(2,3) True None show ?thesis
        by (simp add: reconcile.simps [of i ls])
    next
      case (Some j)
      let ?ls' = "\<lparr>added = splice1 i (added ls), deleted = splice1 j (deleted ls),
                   modified = modified ls @ [added ls ! i]\<rparr>"
      have "\<forall>k<i. k < length (added ?ls') \<longrightarrow>
              (\<forall>d\<in>set (deleted ?ls'). 1 < \<bar>added ?ls' ! k - d\<bar>)"
        using "1.prems"(1) True set_splice1 [of j "deleted ls"]
        by (auto simp: splice1_nth)
      from "1.IH"(2) [OF True Some this] "1.prems"(2,3) True Some show ?thesis
        by (simp add: reconcile.simps [of i ls])
    qed
  qed
qed

lemma parseGitDiff_Some:
  "parseGitDiff diff = Some (r, hs) \<Longrightarrow>
     \<exists>st. scan initial_state (split_on newline diff) = Some st \<and> r = reconcile 0 (lines st)"
  by (auto simp: parseGitDiff_def split: option.splits)

text \<open>
  A diff that is within range is scanned to the end: the cursor stays below the bound
  \<open>M\<close> on the header numbers plus the number of lines scanned, and so does the end of
  every hunk.
\<close>

lemma push_content_set:
  "h \<in> set (push_content l hs) \<Longrightarrow>
     h \<in> set hs \<or> (\<exists>h0\<in>set hs. h = h0\<lparr>content := content h0 @ [l]\<rparr>)"
proof (cases "hs = []")
  case True
  moreover assume "h \<in> set (push_content l hs)"
  ultimately show ?thesis by (simp add: push_content_def)
next
  case False
  assume "h \<in> set (push_content l hs)"
  with False have "h \<in> set (butlast hs) \<or> h = (last hs)\<lparr>content := content (last hs) @ [l]\<rparr>"
    by (auto simp: push_content_def)
  with False show ?thesis
    by (auto dest: in_set_butlastD)
qed

lemma push_content_bounded:
  assumes "\<forall>h\<in>set hs. start h \<le> M \<and> int (length (content h)) \<le> k"
  shows "\<forall>h\<in>set (push_content l hs). start h \<le> M \<and> int (length (content h)) \<le> k + 1"
proof
  fix h assume "h \<in> set (push_content l hs)"
  from push_content_set [OF this] assms
  show "start h \<le> M \<and> int (length (content h)) \<le> k + 1"
    by fastforce
qed

lemma scan_line_bounded:
  assumes cur: "currentLine st \<le> M + k"
    and room: "M + k + 1 \<le> max_safe"
    and hdr: "case find_header l of None \<Rightarrow> True | Some d \<Rightarrow> digits_value d \<le> M"
    and hk: "\<forall>h\<in>set (hunks st). start h \<le> M \<and> int (length (content h)) \<le> k"
    and k: "0 \<le> k"
  shows "\<exists>st'. scan_line st l = Some st' \<and> currentLine st' \<le> M + (k + 1)
           \<and> (\<forall>h\<in>set (hunks st'). start h \<le> M \<and> int (length (content h)) \<le> k + 1)"
proof -
  from cur room have next_safe: "safe_number (currentLine st + 1) = Some (currentLine st + 1)"
    by (simp add: safe_number_def)
  from hk have hk': "\<forall>h\<in>set (hunks st). start h \<le> M \<and> int (length (content h)) \<le> k + 1"
    by fastforce
  note pc = push_content_bounded [OF hk, of l]
  show ?thesis
  proof (cases "startsWith l ''@@''")
    case True
    show ?thesis
    proof (cases "find_header l")
      case None
      with True cur hk' show ?thesis by (simp add: scan_line_def)
    next
      case (Some d)
      with hdr have d: "digits_value d \<le> M" by simp
      with room k have "parseInt d = Some (digits_value d)"
        by (simp add: parseInt_def safe_number_def)
      with True Some d hk' k show ?thesis by (simp add: scan_line_def)
    qed
  next
    case False
    with next_safe cur hk' pc show ?thesis
      by (simp add: scan_line_def)
  qed
qed

lemma scan_bounded:
  "list_all (\<lambda>l. case find_header l of None \<Rightarrow> True | Some d \<Rightarrow> digits_value d \<le> M) ls
   \<Longrightarrow> currentLine st \<le> M + k \<Longrightarrow> M + k + int (length ls) \<le> max_safe
   \<Longrightarrow> \<forall>h\<in>set (hunks st). start h \<le> M \<and> int (length (content h)) \<le> k \<Longrightarrow> 0 \<le> k
   \<Longrightarrow> \<exists>st'. scan st ls = Some st'
          \<and> (\<forall>h\<in>set (hunks st'). start h \<le> M \<and> int (length (content h)) \<le> k + int (length ls))"
proof (induction ls arbitrary: st k)
  case Nil
  then show ?case by simp
next
  case (Cons l ls)
  from Cons.prems(1) have hdr: "case find_header l of None \<Rightarrow> True | Some d \<Rightarrow> digits_value d \<le> M"
    and rest: "list_all (\<lambda>l. case find_header l of None \<Rightarrow> True | Some d \<Rightarrow> digits_value d \<le> M) ls"
    by simp_all
  from Cons.prems(3) have room: "M + k + 1 \<le> max_safe" by simp
  from scan_line_bounded [OF Cons.prems(2) room hdr Cons.prems(4,5)]
  obtain st1 where st1: "scan_line st l = Some st1" "currentLine st1 \<le> M + (k + 1)"
    "\<forall>h\<in>set (hunks st1). start h \<le> M \<and> int (length (content h)) \<le> k + 1"
    by blast
  from Cons.prems(3) have room': "M + (k + 1) + int (length ls) \<le> max_safe" by simp
  from Cons.prems(5) have "0 \<le> k + 1" by simp
  from Cons.IH [OF rest st1(2) room' st1(3) this]
  obtain st' where "scan st1 ls = Some st'"
    "\<forall>h\<in>set (hunks st'). start h \<le> M \<and> int (length (content h)) \<le> k + 1 + int (length ls)"
    by blast
  with st1(1) show ?case by (auto simp: algebra_simps)
qed

lemma set_ends_Some:
  "\<forall>h\<in>set hs. start h + int (length (content h)) \<le> max_safe \<Longrightarrow> \<exists>hs'. set_ends hs = Some hs'"
  by (induction hs) (auto simp: set_end_def safe_number_def)

lemma within_range_returns: "within_range diff \<Longrightarrow> \<exists>r hs. parseGitDiff diff = Some (r, hs)"
proof -
  let ?ls = "split_on newline diff"
  let ?M = "max_safe - int (length ?ls)"
  assume w: "within_range diff"
  then have len: "int (length ?ls) \<le> max_safe"
    by (simp add: within_range_def)
  from w have "list_all
      (\<lambda>l. case find_header l of None \<Rightarrow> True | Some d \<Rightarrow> digits_value d \<le> ?M) ?ls"
    by (auto simp: within_range_def list_all_iff split: option.splits)
  from scan_bounded [OF this, of initial_state 0] len
  obtain st where st: "scan initial_state ?ls = Some st"
    "\<forall>h\<in>set (hunks st). start h \<le> ?M \<and> int (length (content h)) \<le> 0 + int (length ?ls)"
    by (auto simp: initial_state_def)
  from st(2) have "\<forall>h\<in>set (hunks st). start h + int (length (content h)) \<le> max_safe"
    by fastforce
  from set_ends_Some [OF this] obtain hs where "set_ends (hunks st) = Some hs" by blast
  with st(1) show ?thesis by (simp add: parseGitDiff_def)
qed

lemma parse_shrinking_diff:
  "map_option fst (parseGitDiff shrinking_diff)
     = Some \<lparr>added = [], deleted = [5, 5], modified = [5]\<rparr>"
  by code_simp

lemma parse_distant_diff:
  "map_option fst (parseGitDiff distant_diff)
     = Some \<lparr>added = [10], deleted = [7], modified = []\<rparr>"
  by code_simp

lemma within_range_distant_diff: "within_range distant_diff"
  by code_simp

lemma parse_scenario_A:
  "map_option fst (parseGitDiff scenario_A_diff)
     = Some \<lparr>added = [11], deleted = [], modified = []\<rparr>"
  by code_simp

text \<open>
  Claim C1, as stated: after reconciliation every line number is in at most one of
  \<open>added\<close>, \<open>deleted\<close>, \<open>modified\<close>. It fails when several deleted lines are recorded at
  the same cursor position: replacing three lines by one leaves line 5 both in
  \<open>modified\<close> and in \<open>deleted\<close>.
\<close>

theorem parseGitDiff_overlap_counterexample:
  "map_option fst (parseGitDiff shrinking_diff)
     = Some \<lparr>added = [], deleted = [5, 5], modified = [5]\<rparr>"
  by (rule parse_shrinking_diff)

text \<open>
  Claim C1, amended: for every diff whose line numbers stay safe integers, after
  reconciliation no line number is both in \<open>added\<close> and in \<open>deleted\<close>; indeed every line
  left in \<open>added\<close> is more than one line away from every line left in \<open>deleted\<close>. A diff
  that is within range has such a result. (Nothing is said about \<open>modified\<close>.)
\<close>

theorem parseGitDiff_added_deleted_disjoint:
  "(parseGitDiff diff = Some (r, hs) \<longrightarrow>
      (\<forall>a\<in>set (added r). \<forall>d\<in>set (deleted r). 1 < \<bar>a - d\<bar>)
      \<and> set (added r) \<inter> set (deleted r) = {})
   \<and> (within_range diff \<longrightarrow> (\<exists>r hs. parseGitDiff diff = Some (r, hs)))"
proof (intro conjI impI)
  assume p: "parseGitDiff diff = Some (r, hs)"
  from parseGitDiff_Some [OF p] obtain st :: diff_state where r: "r = reconcile 0 (lines st)"
    by blast
  have sep: "1 < \<bar>a - d\<bar>" if "a \<in> set (added r)" and "d \<in> set (deleted r)" for a d
    using reconcile_separated [of 0 "lines st" a d] that r by simp
  then show "\<forall>a\<in>set (added r). \<forall>d\<in>set (deleted r). 1 < \<bar>a - d\<bar>"
    by blast
  from sep show "set (added r) \<inter> set (deleted r) = {}"
    by fastforce
next
  assume "within_range diff"
  then show "\<exists>r hs. parseGitDiff diff = Some (r, hs)"
    by (rule within_range_returns)
qed

theorem parseGitDiff_added_deleted_disjoint_witness:
  "within_range distant_diff
   \<and> map_option fst (parseGitDiff distant_diff)
       = Some \<lparr>added = [10], deleted = [7], modified = []\<rparr>
   \<and> set [10 :: int] \<inter> set [7] = {}"
proof -
  from parse_distant_diff obtain hs where
    p: "parseGitDiff distant_diff = Some (\<lparr>added = [10], deleted = [7], modified = []\<rparr>, hs)"
    by (cases "parseGitDiff distant_diff") auto
  from parseGitDiff_added_deleted_disjoint
    [of distant_diff "\<lparr>added = [10], deleted = [7], modified = []\<rparr>" hs] p
  have "set [10 :: int] \<inter> set [7] = {}" by simp
  with within_range_distant_diff parse_distant_diff show ?thesis by simp
qed

text \<open>
  The header pattern on the text of a hunk header: the second group is the new-file
  start \<open>c\<close>, whatever the old-file start \<open>a\<close> and the counts are.
\<close>

lemma takeWhile_digits:
  "all_digits a \<Longrightarrow> \<not> is_digit x \<Longrightarrow> takeWhile is_digit (a @ x # r) = a"
  by (induction a) (auto simp: all_digits_def)

lemma dropWhile_digits:
  "all_digits a \<Longrightarrow> \<not> is_digit x \<Longrightarrow> dropWhile is_digit (a @ x # r) = x # r"
  by (induction a) (auto simp: all_digits_def)

lemma count_part_run:
  assumes "case b of None \<Rightarrow> True | Some ds \<Rightarrow> all_digits ds" and "all_digits a"
  shows "takeWhile is_digit (a @ count_part b @ CHR '' '' # r) = a"
    and "dropWhile is_digit (opt_comma (dropWhile is_digit (a @ count_part b @ CHR '' '' # r)))
           = CHR '' '' # r"
proof -
  have sp: "\<not> is_digit CHR '' ''" and co: "\<not> is_digit CHR '',''"
    by (simp_all add: is_digit_def)
  show "takeWhile is_digit (a @ count_part b @ CHR '' '' # r) = a"
  proof (cases b)
    case None
    with takeWhile_digits [OF assms(2) sp] show ?thesis by (simp add: count_part_def)
  next
    case (Some ds)
    with takeWhile_digits [OF assms(2) co] show ?thesis by (simp add: count_part_def)
  qed
  show "dropWhile is_digit (opt_comma (dropWhile is_digit (a @ count_part b @ CHR '' '' # r)))
           = CHR '' '' # r"
  proof (cases b)
    case None
    with dropWhile_digits [OF assms(2) sp, of r] sp show ?thesis
      by (simp add: count_part_def opt_comma_def)
  next
    case (Some ds)
    with assms(1) have ds: "all_digits ds" by simp
    from Some dropWhile_digits [OF assms(2) co, of "ds @ CHR '' '' # r"]
    have "opt_comma (dropWhile is_digit (a @ count_part b @ CHR '' '' # r)) = ds @ CHR '' '' # r"
      by (simp add: count_part_def opt_comma_def)
    with dropWhile_digits [OF ds sp, of r] show ?thesis by simp
  qed
qed

lemma header_at_parts:
  "takeWhile is_digit r1 \<noteq> []
   \<Longrightarrow> dropWhile is_digit (opt_comma (dropWhile is_digit r1)) = '' +'' @ r3
   \<Longrightarrow> takeWhile is_digit r3 = c \<Longrightarrow> c \<noteq> []
   \<Longrightarrow> dropWhile is_digit (opt_comma (dropWhile is_digit r3)) = '' @@'' @ rest
   \<Longrightarrow> header_at (''@@ -'' @ r1) = Some c"
  by (simp add: header_at_def Let_def)

lemma header_at_hunk_header:
  assumes a: "all_digits a" "a \<noteq> []" and c: "all_digits c" "c \<noteq> []"
    and b: "case b of None \<Rightarrow> True | Some ds \<Rightarrow> all_digits ds"
    and d: "case d of None \<Rightarrow> True | Some ds \<Rightarrow> all_digits ds"
  shows "header_at (hunk_header a b c d rest) = Some c"
proof -
  let ?tail = "c @ count_part d @ CHR '' '' # (''@@'' @ rest)"
  let ?r1 = "a @ count_part b @ CHR '' '' # (CHR ''+'' # ?tail)"
  have h: "hunk_header a b c d rest = ''@@ -'' @ ?r1"
    by (simp add: hunk_header_def)
  have 1: "takeWhile is_digit ?r1 = a"
    by (rule count_part_run(1) [OF b a(1)])
  have 2: "dropWhile is_digit (opt_comma (dropWhile is_digit ?r1)) = CHR '' '' # (CHR ''+'' # ?tail)"
    by (rule count_part_run(2) [OF b a(1)])
  have 3: "takeWhile is_digit ?tail = c"
    by (rule count_part_run(1) [OF d c(1)])
  have 4: "dropWhile is_digit (opt_comma (dropWhile is_digit ?tail)) = CHR '' '' # (''@@'' @ rest)"
    by (rule count_part_run(2) [OF d c(1)])
  from 1 a(2) have p1: "takeWhile is_digit ?r1 \<noteq> []" by simp
  from 2 have p2: "dropWhile is_digit (opt_comma (dropWhile is_digit ?r1)) = '' +'' @ ?tail"
    by simp
  from 4 have p4: "dropWhile is_digit (opt_comma (dropWhile is_digit ?tail)) = '' @@'' @ rest"
    by simp
  from header_at_parts [OF p1 p2 3 c(2) p4] h show ?thesis by simp
qed

lemma find_header_hunk_header:
  assumes "all_digits a" "a \<noteq> []" "all_digits c" "c \<noteq> []"
    and "case b of None \<Rightarrow> True | Some ds \<Rightarrow> all_digits ds"
    and "case d of None \<Rightarrow> True | Some ds \<Rightarrow> all_digits ds"
  shows "find_header (hunk_header a b c d rest) = Some c"
    and "startsWith (hunk_header a b c d rest) ''@@''"
proof -
  obtain x xs where x: "hunk_header a b c d rest = x # xs"
    by (simp add: hunk_header_def)
  from header_at_hunk_header [OF assms, of rest] x have "header_at (x # xs) = Some c"
    by simp
  then have "find_header (x # xs) = Some c"
    by simp
  with x show "find_header (hunk_header a b c d rest) = Some c"
    by simp
  show "startsWith (hunk_header a b c d rest) ''@@''"
    by (simp add: hunk_header_def)
qed

text \<open>What one body line does to the cursor and to the line sets.\<close>

lemma scan_line_body:
  assumes "\<not> startsWith l ''@@''" and "scan_line st l = Some st'"
  shows "currentLine st' = currentLine st + (if in_new_file l then 1 else 0)"
    and "added (lines st') = added (lines st) @ (if is_addition l then [currentLine st] else [])"
    and "deleted (lines st') = deleted (lines st) @ (if is_deletion l then [currentLine st] else [])"
proof -
  have plus: "startsWith l ''+'' \<Longrightarrow> \<not> startsWith l ''-'' \<and> \<not> startsWith l [backslash]"
    by (auto simp: startsWith_prefix backslash_def)
  have minus: "startsWith l ''-'' \<Longrightarrow> \<not> startsWith l [backslash]"
    by (auto simp: startsWith_prefix backslash_def)
  from assms plus minus
  show "currentLine st' = currentLine st + (if in_new_file l then 1 else 0)"
    by (auto simp: scan_line_def safe_number_def in_new_file_def is_deletion_def
        split: if_splits)
  from assms plus minus
  show "added (lines st') = added (lines st) @ (if is_addition l then [currentLine st] else [])"
    by (auto simp: scan_line_def safe_number_def is_addition_def split: if_splits)
  from assms plus minus
  show "deleted (lines st') = deleted (lines st) @ (if is_deletion l then [currentLine st] else [])"
    by (auto simp: scan_line_def safe_number_def is_deletion_def is_addition_def
        split: if_splits)
qed

lemma scan_append:
  "scan st (xs @ ys) = (case scan st xs of None \<Rightarrow> None | Some st' \<Rightarrow> scan st' ys)"
  by (induction xs arbitrary: st) (auto split: option.splits)

lemma numbers_of_snoc:
  "numbers_of kind c (body @ [l]) =
     numbers_of kind c body
     @ (if kind l then [c + int (length (filter in_new_file body))] else [])"
proof -
  have f: "filter (\<lambda>k. kind ((body @ [l]) ! k)) [0..<length body]
      = filter (\<lambda>k. kind (body ! k)) [0..<length body]"
    by (rule filter_cong) (simp_all add: nth_append)
  have m: "map (\<lambda>k. c + int (length (filter in_new_file (take k (body @ [l])))))
        (filter (\<lambda>k. kind (body ! k)) [0..<length body])
      = map (\<lambda>k. c + int (length (filter in_new_file (take k body))))
        (filter (\<lambda>k. kind (body ! k)) [0..<length body])"
    by (rule map_cong) auto
  show ?thesis
    by (simp add: numbers_of_def f m)
qed

lemma scan_body:
  "list_all (\<lambda>l. \<not> startsWith l ''@@'') body \<Longrightarrow> scan st body = Some st'
   \<Longrightarrow> currentLine st' = currentLine st + int (length (filter in_new_file body))
       \<and> added (lines st') = added (lines st) @ numbers_of is_addition (currentLine st) body
       \<and> deleted (lines st') = deleted (lines st) @ numbers_of is_deletion (currentLine st) body"
proof (induction body arbitrary: st' rule: rev_induct)
  case Nil
  then show ?case by (simp add: numbers_of_def)
next
  case (snoc l body)
  from snoc.prems(2) obtain st1 where st1: "scan st body = Some st1" "scan_line st1 l = Some st'"
    by (auto simp: scan_append split: option.splits)
  from snoc.prems(1) have nh: "\<not> startsWith l ''@@''"
    and rest: "list_all (\<lambda>l. \<not> startsWith l ''@@'') body"
    by simp_all
  note IH = snoc.IH [OF rest st1(1)]
  note step = scan_line_body [OF nh st1(2)]
  from IH step show ?case
    by (simp add: numbers_of_snoc)
qed

lemma header_10_10: "find_header ''@@ -10,3 +10,4 @@'' = Some ''10''"
  by code_simp

text \<open>
  Claim C2, as stated, says that any line other than an addition or a deletion advances
  the cursor. The marker \<^verbatim>\<open>\ No newline at end of file\<close> is neither, and the scan leaves
  the cursor where it is (the guard \<^verbatim>\<open>else if (!line.startsWith('\\'))\<close>).
\<close>

theorem scan_line_marker_counterexample:
  "\<not> startsWith no_newline_marker ''+'' \<and> \<not> startsWith no_newline_marker ''-''
   \<and> \<not> startsWith no_newline_marker ''@@''
   \<and> map_option currentLine (scan_line (initial_state\<lparr>currentLine := 7\<rparr>) no_newline_marker)
       = Some 7"
  by (simp add: no_newline_marker_def scan_line_def initial_state_def backslash_def)

text \<open>
  Claim C2, amended, for line numbers that are safe integers. A hunk header
  \<^verbatim>\<open>@@ -a,b +c,d @@\<close> sets the cursor to its new-file start \<open>c\<close>. A line starting with
  \<open>+\<close> (not \<open>+++\<close>) records the cursor in \<open>added\<close> and advances it; a line starting with
  \<open>-\<close> (not \<open>---\<close>) records the cursor in \<open>deleted\<close> and leaves it; any other line that
  starts neither with \<open>@@\<close> nor with a backslash advances the cursor and records nothing;
  a line starting with a backslash changes nothing. So the number recorded for an added
  or deleted line of a hunk body is the cursor at the start of the body plus the number
  of earlier body lines that are additions or context. Scenario A gives \<open>added = {11}\<close>,
  \<open>modified = {}\<close>, \<open>deleted = {}\<close>.
\<close>

theorem scan_line_cursor:
  "(all_digits a \<and> a \<noteq> [] \<and> all_digits c \<and> c \<noteq> []
      \<and> (case b of None \<Rightarrow> True | Some ds \<Rightarrow> all_digits ds)
      \<and> (case d of None \<Rightarrow> True | Some ds \<Rightarrow> all_digits ds)
      \<and> digits_value c \<le> max_safe \<longrightarrow>
      (\<exists>st'. scan_line st (hunk_header a b c d rest) = Some st'
         \<and> currentLine st' = digits_value c \<and> lines st' = lines st))
   \<and> (startsWith line ''+'' \<and> \<not> startsWith line ''+++'' \<and> currentLine st < max_safe \<longrightarrow>
      (\<exists>st'. scan_line st line = Some st'
         \<and> added (lines st') = added (lines st) @ [currentLine st]
         \<and> deleted (lines st') = deleted (lines st)
         \<and> currentLine st' = currentLine st + 1))
   \<and> (startsWith line ''-'' \<and> \<not> startsWith line ''---'' \<longrightarrow>
      (\<exists>st'. scan_line st line = Some st'
         \<and> deleted (lines st') = deleted (lines st) @ [currentLine st]
         \<and> added (lines st') = added (lines st)
         \<and> currentLine st' = currentLine st))
   \<and> (\<not> (startsWith line ''+'' \<and> \<not> startsWith line ''+++'')
      \<and> \<not> (startsWith line ''-'' \<and> \<not> startsWith line ''---'')
      \<and> \<not> startsWith line ''@@'' \<and> \<not> startsWith line [backslash]
      \<and> currentLine st < max_safe \<longrightarrow>
      (\<exists>st'. scan_line st line = Some st'
         \<and> currentLine st' = currentLine st + 1 \<and> lines st' = lines st))
   \<and> (startsWith line [backslash] \<longrightarrow> scan_line st line = Some st)
   \<and> (list_all (\<lambda>l. \<not> startsWith l ''@@'') body \<and> scan st body = Some st2 \<longrightarrow>
      currentLine st2 = currentLine st + int (length (filter in_new_file body))
      \<and> added (lines st2) = added (lines st) @ numbers_of is_addition (currentLine st) body
      \<and> deleted (lines st2) = deleted (lines st) @ numbers_of is_deletion (currentLine st) body)
   \<and> map_option fst (parseGitDiff scenario_A_diff)
       = Some \<lparr>added = [11], deleted = [], modified = []\<rparr>"
proof (intro conjI impI)
  assume h: "all_digits a \<and> a \<noteq> [] \<and> all_digits c \<and> c \<noteq> []
      \<and> (case b of None \<Rightarrow> True | Some ds \<Rightarrow> all_digits ds)
      \<and> (case d of None \<Rightarrow> True | Some ds \<Rightarrow> all_digits ds)
      \<and> digits_value c \<le> max_safe"
  then have "find_header (hunk_header a b c d rest) = Some c"
    and "startsWith (hunk_header a b c d rest) ''@@''"
    by (simp_all add: find_header_hunk_header)
  moreover from h have "parseInt c = Some (digits_value c)"
    by (simp add: parseInt_def safe_number_def)
  ultimately show "\<exists>st'. scan_line st (hunk_header a b c d rest) = Some st'
         \<and> currentLine st' = digits_value c \<and> lines st' = lines st"
    by (simp add: scan_line_def)
next
  assume "startsWith line ''+'' \<and> \<not> startsWith line ''+++'' \<and> currentLine st < max_safe"
  moreover have "startsWith line ''+'' \<Longrightarrow> \<not> startsWith line ''@@''"
    by (auto simp: startsWith_prefix)
  ultimately show "\<exists>st'. scan_line st line = Some st'
         \<and> added (lines st') = added (lines st) @ [currentLine st]
         \<and> deleted (lines st') = deleted (lines st)
         \<and> currentLine st' = currentLine st + 1"
    by (auto simp: scan_line_def safe_number_def)
next
  assume "startsWith line ''-'' \<and> \<not> startsWith line ''---''"
  moreover have "startsWith line ''-'' \<Longrightarrow> \<not> startsWith line ''@@'' \<and> \<not> startsWith line ''+''"
    by (auto simp: startsWith_prefix)
  ultimately show "\<exists>st'. scan_line st line = Some st'
         \<and> deleted (lines st') = deleted (lines st) @ [currentLine st]
         \<and> added (lines st') = added (lines st)
         \<and> currentLine st' = currentLine st"
    by (auto simp: scan_line_def)
next
  assume "\<not> (startsWith line ''+'' \<and> \<not> startsWith line ''+++'')
      \<and> \<not> (startsWith line ''-'' \<and> \<not> startsWith line ''---'')
      \<and> \<not> startsWith line ''@@'' \<and> \<not> startsWith line [backslash]
      \<and> currentLine st < max_safe"
  then show "\<exists>st'. scan_line st line = Some st'
         \<and> currentLine st' = currentLine st + 1 \<and> lines st' = lines st"
    by (auto simp: scan_line_def safe_number_def)
next
  assume "startsWith line [backslash]"
  moreover have "startsWith line [backslash] \<Longrightarrow>
      \<not> startsWith line ''@@'' \<and> \<not> startsWith line ''+'' \<and> \<not> startsWith line ''-''"
    by (auto simp: startsWith_prefix backslash_def)
  ultimately show "scan_line st line = Some st"
    by (simp add: scan_line_def)
next
  assume b: "list_all (\<lambda>l. \<not> startsWith l ''@@'') body \<and> scan st body = Some st2"
  then have "list_all (\<lambda>l. \<not> startsWith l ''@@'') body" and "scan st body = Some st2"
    by simp_all
  from scan_body [OF this]
  show "currentLine st2 = currentLine st + int (length (filter in_new_file body))"
    and "added (lines st2) = added (lines st) @ numbers_of is_addition (currentLine st) body"
    and "deleted (lines st2) = deleted (lines st) @ numbers_of is_deletion (currentLine st) body"
    by simp_all
next
  show "map_option fst (parseGitDiff scenario_A_diff)
       = Some \<lparr>added = [11], deleted = [], modified = []\<rparr>"
    by (rule parse_scenario_A)
qed

text \<open>
  The header \<^verbatim>\<open>@@ -3,4 +27 @@\<close> and a body of a context line, a deletion, the marker, an
  addition, a context line and an addition, scanned from cursor 27.
\<close>

lemma scan_sample_body:
  "scan (initial_state\<lparr>currentLine := 27\<rparr>) sample_body
     = Some (initial_state\<lparr>currentLine := 31,
               lines := \<lparr>added = [28, 30], deleted = [28], modified = []\<rparr>\<rparr>)"
  by code_simp

theorem scan_line_cursor_witness:
  "hunk_header ''3'' (Some ''4'') ''27'' None '' function render() {''
     = ''@@ -3,4 +27 @@ function render() {''
   \<and> map_option currentLine
        (scan_line (initial_state\<lparr>currentLine := 3\<rparr>) ''@@ -3,4 +27 @@ function render() {'')
       = Some 27
   \<and> map_option (\<lambda>s. (added (lines s), currentLine s))
        (scan_line (initial_state\<lparr>currentLine := 3\<rparr>) ''+x'') = Some ([3], 4)
   \<and> map_option (\<lambda>s. (deleted (lines s), currentLine s))
        (scan_line (initial_state\<lparr>currentLine := 3\<rparr>) ''-x'') = Some ([3], 3)
   \<and> map_option currentLine (scan_line (initial_state\<lparr>currentLine := 3\<rparr>) '' x'') = Some 4
   \<and> scan_line (initial_state\<lparr>currentLine := 3\<rparr>) no_newline_marker
       = Some (initial_state\<lparr>currentLine := 3\<rparr>)
   \<and> numbers_of is_addition 27 sample_body = [28, 30]
   \<and> numbers_of is_deletion 27 sample_body = [28]"
proof -
  let ?st = "initial_state\<lparr>currentLine := 3\<rparr>"
  let ?s27 = "initial_state\<lparr>currentLine := 27\<rparr>"
  let ?end = "initial_state\<lparr>currentLine := 31,
               lines := \<lparr>added = [28, 30], deleted = [28], modified = []\<rparr>\<rparr>"
  have hh: "hunk_header ''3'' (Some ''4'') ''27'' None '' function render() {''
     = ''@@ -3,4 +27 @@ function render() {''"
    by (simp add: hunk_header_def count_part_def)
  have dv: "digits_value ''27'' = 27" "(27 :: int) \<le> max_safe" "(3 :: int) < max_safe"
    by (simp_all add: digits_value_def max_safe_def)
  have dg: "all_digits ''3''" "all_digits ''27''" "all_digits ''4''"
    by (simp_all add: all_digits_def is_digit_def)
  have nh: "list_all (\<lambda>l. \<not> startsWith l ''@@'') sample_body"
    by (simp add: sample_body_def no_newline_marker_def backslash_def)
  note t = scan_line_cursor [where st = ?st and a = "''3''" and b = "Some ''4''" and c = "''27''"
      and d = None and rest = "'' function render() {''" and body = "[]" and ?st2.0 = ?st]
  note r = scan_line_cursor [where st = ?s27 and a = "''3''" and b = "Some ''4''" and c = "''27''"
      and d = None and rest = "[]" and body = sample_body and ?st2.0 = ?end and line = "'' x''"]
  from t [where line = "'' x''"] hh dv dg
  have 1: "map_option currentLine (scan_line ?st ''@@ -3,4 +27 @@ function render() {'') = Some 27"
    by auto
  from t [where line = "''+x''"] dv
  have 2: "map_option (\<lambda>s. (added (lines s), currentLine s)) (scan_line ?st ''+x'') = Some ([3], 4)"
    by (auto simp: initial_state_def)
  from t [where line = "''-x''"]
  have 3: "map_option (\<lambda>s. (deleted (lines s), currentLine s)) (scan_line ?st ''-x'') = Some ([3], 3)"
    by (auto simp: initial_state_def)
  from t [where line = "'' x''"] dv
  have 4: "map_option currentLine (scan_line ?st '' x'') = Some 4"
    by (auto simp: initial_state_def backslash_def)
  from t [where line = no_newline_marker]
  have 5: "scan_line ?st no_newline_marker = Some ?st"
    by (simp add: no_newline_marker_def backslash_def)
  from r nh scan_sample_body
  have 6: "numbers_of is_addition 27 sample_body = [28, 30]"
    and 7: "numbers_of is_deletion 27 sample_body = [28]"
    by (simp_all add: initial_state_def)
  from hh 1 2 3 4 5 6 7 show ?thesis by simp
qed

section \<open>Pluralisation\<close>

lemma pluralizeEndpoint_ends_s: "endsWith (pluralizeEndpoint e) ''s''"
  by (simp add: pluralizeEndpoint_def endsWith_single)

text \<open>
  Claim C10. \<open>pluralizeEndpoint\<close> is idempotent: its output always ends in \<open>s\<close>, and a
  string that ends in \<open>s\<close> is returned unchanged.
\<close>

theorem pluralizeEndpoint_idempotent:
  "pluralizeEndpoint (pluralizeEndpoint e) = pluralizeEndpoint e
   \<and> endsWith (pluralizeEndpoint e) ''s''
   \<and> (endsWith e ''s'' \<longrightarrow> pluralizeEndpoint e = e)"
proof -
  have unchanged: "pluralizeEndpoint x = x" if "endsWith x ''s''" for x
    using that by (auto simp: pluralizeEndpoint_def endsWith_single)
  have ends: "endsWith (pluralizeEndpoint e) ''s''"
    by (rule pluralizeEndpoint_ends_s)
  from unchanged [OF ends] ends unchanged show ?thesis by blast
qed

theorem pluralizeEndpoint_idempotent_witness:
  "pluralizeEndpoint (pluralizeEndpoint ''/category'') = ''/categories''
   \<and> endsWith ''/users'' ''s'' \<and> pluralizeEndpoint ''/users'' = ''/users''"
  using pluralizeEndpoint_idempotent [of "''/category''"]
    pluralizeEndpoint_idempotent [of "''/users''"]
  by (simp add: pluralizeEndpoint_def endsWith_def)

section \<open>The change attributor\<close>

lemma classify_spec: "classify lc s e = spec_class lc s e"
  by (auto simp: classify_def spec_class_def list_ex_iff)

lemma attribute_eq:
  "attribute lc name s e ls fs =
     (if \<exists>l. l \<in> set ls \<and> s \<le> l \<and> l \<le> e then set_property fs name (classify lc s e) else fs)"
  by (induction ls) auto

lemma visit_decl_of:
  "\<not> is_class_method n \<Longrightarrow>
   visit lc fs n =
     Inr (case decl_of n of
            None \<Rightarrow> fs
          | Some (name, s, e) \<Rightarrow>
              if touched lc s e then set_property fs name (spec_class lc s e) else fs)"
  by (cases n)
     (auto simp: attribute_eq allLines_def touched_def classify_spec is_class_method_def)

lemma traverse_snoc:
  "traverse lc fs (ast @ [n]) =
     (case traverse lc fs ast of Inl err \<Rightarrow> Inl err | Inr fs' \<Rightarrow> visit lc fs' n)"
  by (induction ast arbitrary: fs) (auto split: sum.splits)

lemma declarations_snoc:
  "declarations (ast @ [n]) =
     declarations ast @ (case decl_of n of None \<Rightarrow> [] | Some d \<Rightarrow> [d])"
  by (simp add: declarations_def map_filter_def split: option.splits)

text \<open>
  Without class methods the traversal returns, and a name's entry is that of the last
  declaration of the name whose range contains a changed line.
\<close>

lemma traverse_last:
  "list_all (\<lambda>n. \<not> is_class_method n) ast \<Longrightarrow>
   \<exists>res. traverse lc fs ast = Inr res
     \<and> res ''__proto__'' = fs ''__proto__''
     \<and> (\<forall>k. k \<noteq> ''__proto__'' \<longrightarrow>
          res k =
            (if hits lc k ast = [] then fs k
             else Some (case last (hits lc k ast) of (name, s, e) \<Rightarrow> spec_class lc s e)))"
proof (induction ast rule: rev_induct)
  case Nil
  then show ?case by (simp add: hits_def declarations_def map_filter_def)
next
  case (snoc n ast)
  from snoc.prems have n: "\<not> is_class_method n"
    and rest: "list_all (\<lambda>n. \<not> is_class_method n) ast"
    by simp_all
  from snoc.IH [OF rest] obtain res where
    r: "traverse lc fs ast = Inr res" "res ''__proto__'' = fs ''__proto__''"
    "\<forall>k. k \<noteq> ''__proto__'' \<longrightarrow>
          res k =
            (if hits lc k ast = [] then fs k
             else Some (case last (hits lc k ast) of (name, s, e) \<Rightarrow> spec_class lc s e))"
    by blast
  let ?res' = "case decl_of n of
            None \<Rightarrow> res
          | Some (name, s, e) \<Rightarrow>
              if touched lc s e then set_property res name (spec_class lc s e) else res"
  from r(1) n have t: "traverse lc fs (ast @ [n]) = Inr ?res'"
    by (simp add: traverse_snoc visit_decl_of)
  from r(2) have p: "?res' ''__proto__'' = fs ''__proto__''"
    by (auto simp: set_property_def split: option.splits)
  from r(3) have "\<forall>k. k \<noteq> ''__proto__'' \<longrightarrow>
          ?res' k =
            (if hits lc k (ast @ [n]) = [] then fs k
             else Some (case last (hits lc k (ast @ [n])) of (name, s, e) \<Rightarrow> spec_class lc s e))"
    by (auto simp: declarations_snoc hits_def set_property_def split: option.splits)
  with t p show ?case by blast
qed

lemma traverse_class_method:
  "\<not> list_all (\<lambda>n. \<not> is_class_method n) ast \<Longrightarrow> traverse lc fs ast = Inl TypeError"
proof (induction ast arbitrary: fs)
  case Nil
  then show ?case by simp
next
  case (Cons n ast)
  show ?case
  proof (cases "is_class_method n")
    case True
    then show ?thesis by (cases n) (simp_all add: is_class_method_def)
  next
    case False
    from visit_decl_of [OF False] obtain fs' where "visit lc fs n = Inr fs'" by blast
    moreover from False Cons.prems have "\<not> list_all (\<lambda>n. \<not> is_class_method n) ast" by simp
    ultimately show ?thesis using Cons.IH by simp
  qed
qed

text \<open>
  A tree with a class method: the call fails with the \<^verbatim>\<open>TypeError\<close> and returns no
  record, also for the functions of the tree.
\<close>

lemma detectFunctionChanges_class_method:
  "\<not> list_all (\<lambda>n. \<not> is_class_method n) ast \<Longrightarrow> detectFunctionChanges ast lc = Inl TypeError"
  and "detectFunctionChanges class_ast \<lparr>added = [], deleted = [], modified = [20]\<rparr> = Inl TypeError"
  by (simp_all add: detectFunctionChanges_def traverse_class_method class_ast_def
      is_class_method_def)

lemma hits_single:
  assumes "filter (\<lambda>decl. fst decl = k) (declarations ast) = [(k, s, e)]"
  shows "hits lc k ast = (if touched lc s e then [(k, s, e)] else [])"
proof -
  have "hits lc k ast =
      filter (\<lambda>d. touched lc (fst (snd d)) (snd (snd d)))
        (filter (\<lambda>d. fst d = k) (declarations ast))"
    by (simp add: hits_def case_prod_unfold conj_commute)
  with assms show ?thesis by simp
qed

text \<open>
  Claim C3, as stated, speaks of every declaration. The record is keyed by name, so two
  declarations of one name share an entry and the one visited last decides it: the first
  \<open>handleClick\<close> contains the deleted line 2, yet the record says \<open>modified\<close>.
\<close>

theorem detectFunctionChanges_duplicate_counterexample:
  "(''handleClick'', 1, 3) \<in> set (declarations duplicate_ast)
   \<and> 2 \<in> set (deleted duplicate_changes)
   \<and> detectFunctionChanges duplicate_ast duplicate_changes = Inr [''handleClick'' \<mapsto> Modified]"
  by (simp add: detectFunctionChanges_def duplicate_ast_def duplicate_changes_def allLines_def
      or_default_def set_property_def classify_def declarations_def map_filter_def)

text \<open>
  Claim C3, amended, for trees whose declarations are function declarations and arrow
  functions bound to variables. The record is keyed by name. A name (other than
  \<^verbatim>\<open>__proto__\<close>) is in the record if and only if some declaration of that name has a range
  that contains a changed line, and its classification is that of the last such
  declaration visited: \<open>deleted\<close> if the range contains a deleted line, otherwise \<open>added\<close>
  if it contains an added line, otherwise \<open>modified\<close>. So a declaration whose name no
  other declaration has is in the record if and only if its own range contains a changed
  line, with its own classification; and every key of the record is the name of a
  declaration whose range contains a changed line. Scenario B gives \<open>{getUser: modified}\<close>.
\<close>

theorem detectFunctionChanges_classification:
  "(list_all (\<lambda>n. \<not> is_class_method n) ast \<longrightarrow>
      (\<exists>res. detectFunctionChanges ast lc = Inr res
         \<and> (k \<noteq> ''__proto__'' \<longrightarrow>
              res k =
                (if hits lc k ast = [] then None
                 else Some (case last (hits lc k ast) of (name, s, e) \<Rightarrow> spec_class lc s e)))
         \<and> (k \<noteq> ''__proto__'' \<and> filter (\<lambda>decl. fst decl = k) (declarations ast) = [(k, s, e)] \<longrightarrow>
              res k = (if touched lc s e then Some (spec_class lc s e) else None))
         \<and> (res k = Some c \<longrightarrow>
              (\<exists>s e. (k, s, e) \<in> set (declarations ast) \<and> touched lc s e
                  \<and> c = spec_class lc s e))))
   \<and> detectFunctionChanges [FunctionDeclaration (Some ''getUser'') 5 9]
        \<lparr>added = [], deleted = [], modified = [7]\<rparr> = Inr [''getUser'' \<mapsto> Modified]"
proof (intro conjI impI)
  assume "list_all (\<lambda>n. \<not> is_class_method n) ast"
  from traverse_last [OF this, of lc Map.empty] obtain res where
    r: "detectFunctionChanges ast lc = Inr res" "res ''__proto__'' = None"
    and l: "\<And>k. k \<noteq> ''__proto__'' \<Longrightarrow>
          res k =
            (if hits lc k ast = [] then None
             else Some (case last (hits lc k ast) of (name, s, e) \<Rightarrow> spec_class lc s e))"
    by (auto simp: detectFunctionChanges_def)
  have single: "res k = (if touched lc s e then Some (spec_class lc s e) else None)"
    if "k \<noteq> ''__proto__''" "filter (\<lambda>decl. fst decl = k) (declarations ast) = [(k, s, e)]"
    using l [OF that(1)] hits_single [OF that(2), of lc] by simp
  have key: "\<exists>s e. (k, s, e) \<in> set (declarations ast) \<and> touched lc s e \<and> c = spec_class lc s e"
    if c: "res k = Some c"
  proof -
    from c r(2) have k: "k \<noteq> ''__proto__''" by auto
    with c l [OF k] have ne: "hits lc k ast \<noteq> []"
      and v: "(case last (hits lc k ast) of (name, s, e) \<Rightarrow> spec_class lc s e) = c"
      by (auto split: if_splits)
    obtain n s e where la: "last (hits lc k ast) = (n, s, e)"
      by (cases "last (hits lc k ast)")
    from ne have "last (hits lc k ast) \<in> set (hits lc k ast)" by simp
    with la have "(n, s, e) \<in> set (declarations ast)" "n = k" "touched lc s e"
      by (auto simp: hits_def)
    with v la show ?thesis by auto
  qed
  from r(1) l single key
  show "\<exists>res. detectFunctionChanges ast lc = Inr res
         \<and> (k \<noteq> ''__proto__'' \<longrightarrow>
              res k =
                (if hits lc k ast = [] then None
                 else Some (case last (hits lc k ast) of (name, s, e) \<Rightarrow> spec_class lc s e)))
         \<and> (k \<noteq> ''__proto__'' \<and> filter (\<lambda>decl. fst decl = k) (declarations ast) = [(k, s, e)] \<longrightarrow>
              res k = (if touched lc s e then Some (spec_class lc s e) else None))
         \<and> (res k = Some c \<longrightarrow>
              (\<exists>s e. (k, s, e) \<in> set (declarations ast) \<and> touched lc s e
                  \<and> c = spec_class lc s e))"
    by blast
next
  show "detectFunctionChanges [FunctionDeclaration (Some ''getUser'') 5 9]
        \<lparr>added = [], deleted = [], modified = [7]\<rparr> = Inr [''getUser'' \<mapsto> Modified]"
    by (simp add: detectFunctionChanges_def allLines_def or_default_def set_property_def
        classify_def)
qed

lemma shared_name_facts:
  "list_all (\<lambda>n. \<not> is_class_method n) shared_name_ast"
  "declarations shared_name_ast =
     [(''handleClick'', 1, 3), (''handleClick'', 10, 12), (''render'', 14, 18),
      (''handleClick'', 20, 22)]"
  "touched shared_name_changes 1 3" "touched shared_name_changes 10 12"
  "\<not> touched shared_name_changes 14 18" "\<not> touched shared_name_changes 20 22"
  "spec_class shared_name_changes 10 12 = Added"
  by (auto simp: shared_name_ast_def is_class_method_def declarations_def map_filter_def
      or_default_def touched_def spec_class_def shared_name_changes_def)

theorem detectFunctionChanges_classification_witness:
  "list_all (\<lambda>n. \<not> is_class_method n) shared_name_ast
   \<and> hits shared_name_changes ''handleClick'' shared_name_ast
       = [(''handleClick'', 1, 3), (''handleClick'', 10, 12)]
   \<and> filter (\<lambda>decl. fst decl = ''render'') (declarations shared_name_ast) = [(''render'', 14, 18)]
   \<and> detectFunctionChanges shared_name_ast shared_name_changes = Inr [''handleClick'' \<mapsto> Added]"
proof -
  note f = shared_name_facts
  have h: "hits shared_name_changes ''handleClick'' shared_name_ast
       = [(''handleClick'', 1, 3), (''handleClick'', 10, 12)]"
    and hr: "hits shared_name_changes ''render'' shared_name_ast = []"
    by (simp_all add: hits_def f)
  have s: "filter (\<lambda>decl. fst decl = ''render'') (declarations shared_name_ast)
      = [(''render'', 14, 18)]"
    by (simp add: f)
  from detectFunctionChanges_classification
    [of shared_name_ast shared_name_changes "''handleClick''" 1 3 Added] f(1)
  obtain r1 where r1: "detectFunctionChanges shared_name_ast shared_name_changes = Inr r1"
    "r1 ''handleClick'' = Some Added"
    by (auto simp: h f)
  from detectFunctionChanges_classification
    [of shared_name_ast shared_name_changes "''render''" 14 18 Added] f(1) s
  obtain r2 where r2: "detectFunctionChanges shared_name_ast shared_name_changes = Inr r2"
    "r2 ''render'' = None"
    by (auto simp: f)
  have e: "detectFunctionChanges shared_name_ast shared_name_changes = Inr [''handleClick'' \<mapsto> Added]"
    by (simp add: detectFunctionChanges_def shared_name_ast_def shared_name_changes_def
        allLines_def or_default_def set_property_def classify_def)
  from f(1) h s e show ?thesis by simp
qed

section \<open>The element resolver\<close>

lemma try_strategies_Some:
  "try_strategies pg i ss = Some (t, el) \<Longrightarrow>
     i < t \<and> t \<le> i + length ss \<and> ss ! (t - i - 1) = Inr (Some el)
     \<and> (\<exists>n. pg el = Inr n \<and> 0 < n)
     \<and> (\<forall>j < t - i - 1. \<forall>e'. ss ! j = Inr (Some e') \<longrightarrow> pg e' = Inr 0 \<or> (\<exists>err. pg e' = Inl err))"
proof (induction ss arbitrary: i)
  case Nil
  then show ?case by simp
next
  case (Cons s ss)
  show ?case
  proof (cases "\<exists>el' n. s = Inr (Some el') \<and> pg el' = Inr n \<and> 0 < n")
    case True
    with Cons.prems show ?thesis by auto
  next
    case False
    then have skip: "\<forall>e'. s = Inr (Some e') \<longrightarrow> pg e' = Inr 0 \<or> (\<exists>err. pg e' = Inl err)"
      by (metis neq0_conv old.sum.exhaust)
    from False Cons.prems have rec: "try_strategies pg (Suc i) ss = Some (t, el)"
      by (auto split: sum.splits option.splits if_splits)
    from Cons.IH [OF rec] have IH: "Suc i < t" "t \<le> Suc i + length ss"
      "ss ! (t - Suc i - 1) = Inr (Some el)" "\<exists>n. pg el = Inr n \<and> 0 < n"
      "\<forall>j < t - Suc i - 1. \<forall>e'. ss ! j = Inr (Some e') \<longrightarrow> pg e' = Inr 0 \<or> (\<exists>err. pg e' = Inl err)"
      by auto
    from IH(1) have idx: "t - i - 1 = Suc (t - Suc i - 1)" by simp
    have "\<forall>j < t - i - 1. \<forall>e'. (s # ss) ! j = Inr (Some e') \<longrightarrow> pg e' = Inr 0 \<or> (\<exists>err. pg e' = Inl err)"
    proof (intro allI impI)
      fix j e' assume j: "j < t - i - 1" and e: "(s # ss) ! j = Inr (Some e')"
      show "pg e' = Inr 0 \<or> (\<exists>err. pg e' = Inl err)"
      proof (cases j)
        case 0
        with e skip show ?thesis by simp
      next
        case (Suc j')
        with j idx have "j' < t - Suc i - 1" by simp
        with IH(5) e Suc show ?thesis by simp
      qed
    qed
    with IH idx show ?thesis by simp
  qed
qed

lemma try_strategies_None:
  "try_strategies pg i ss = None \<Longrightarrow>
     \<forall>j < length ss. \<forall>e'. ss ! j = Inr (Some e') \<longrightarrow> pg e' = Inr 0 \<or> (\<exists>err. pg e' = Inl err)"
proof (induction ss arbitrary: i)
  case Nil
  then show ?case by simp
next
  case (Cons s ss)
  from Cons.prems have rec: "try_strategies pg (Suc i) ss = None"
    by (auto split: sum.splits option.splits if_splits)
  from Cons.prems have skip: "\<forall>e'. s = Inr (Some e') \<longrightarrow> pg e' = Inr 0 \<or> (\<exists>err. pg e' = Inl err)"
    by (auto split: sum.splits option.splits if_splits)
  show ?case
  proof (intro allI impI)
    fix j e' assume j: "j < length (s # ss)" and e: "(s # ss) ! j = Inr (Some e')"
    show "pg e' = Inr 0 \<or> (\<exists>err. pg e' = Inl err)"
    proof (cases j)
      case 0
      with e skip show ?thesis by simp
    next
      case (Suc j')
      with j e Cons.IH [OF rec] show ?thesis by simp
    qed
  qed
qed

lemma first_unique_Some: "first_unique pg as = Inr (Some el) \<Longrightarrow> pg el = Inr 1"
  by (induction as) (auto split: sum.splits if_splits)

lemma try_strategies_None_conv:
  "(\<forall>j < length ss. \<forall>e'. ss ! j = Inr (Some e') \<longrightarrow> pg e' = Inr 0 \<or> (\<exists>err. pg e' = Inl err))
   \<Longrightarrow> try_strategies pg i ss = None"
proof (induction ss arbitrary: i)
  case Nil
  then show ?case by simp
next
  case (Cons s ss)
  have rest: "\<forall>j < length ss. \<forall>e'. ss ! j = Inr (Some e') \<longrightarrow>
      pg e' = Inr 0 \<or> (\<exists>err. pg e' = Inl err)"
  proof (intro allI impI)
    fix j e' assume "j < length ss" "ss ! j = Inr (Some e')"
    with Cons.prems [rule_format, of "Suc j" e'] show "pg e' = Inr 0 \<or> (\<exists>err. pg e' = Inl err)"
      by simp
  qed
  from Cons.prems [rule_format, of 0] have
    "\<forall>e'. s = Inr (Some e') \<longrightarrow> pg e' = Inr 0 \<or> (\<exists>err. pg e' = Inl err)"
    by simp
  with Cons.IH [OF rest] show ?case
    by (auto split: sum.splits option.splits)
qed

lemma strategies_length: "length (strategies pg sel ctx) = 6"
  by (simp add: strategies_def)

lemma tier6_unique: "strategies pg sel ctx ! 5 = Inr (Some el) \<Longrightarrow> pg el = Inr 1"
proof -
  assume "strategies pg sel ctx ! 5 = Inr (Some el)"
  then have t: "tier6 pg sel = Inr (Some el)"
    by (simp add: strategies_def)
  show ?thesis
  proof (cases "truthy (description sel)")
    case True
    with t show ?thesis
      unfolding tier6_def by (simp only: if_True) (rule first_unique_Some)
  next
    case False
    with t show ?thesis by (simp add: tier6_def)
  qed
qed

lemma findElement_Inr:
  "findElement pg now att sel ctx = (att', Inr el) \<Longrightarrow>
     \<exists>t. try_strategies pg 0 (strategies pg sel ctx) = Some (t, el)
       \<and> att' = att @ [\<lparr>attempt_selectors = sel, strategy = Tier t, success = True,
                         timestamp = now\<rparr>]"
  by (auto simp: findElement_def split: option.splits)

lemma try_strategies_first:
  "k < length ss \<Longrightarrow> ss ! k = Inr (Some el) \<Longrightarrow> pg el = Inr n \<Longrightarrow> 0 < n \<Longrightarrow>
   \<forall>j < k. \<forall>e'. ss ! j = Inr (Some e') \<longrightarrow> pg e' = Inr 0 \<or> (\<exists>err. pg e' = Inl err) \<Longrightarrow>
   try_strategies pg i ss = Some (i + k + 1, el)"
proof (induction ss arbitrary: i k)
  case Nil
  then show ?case by simp
next
  case (Cons s ss)
  show ?case
  proof (cases k)
    case 0
    with Cons.prems show ?thesis by simp
  next
    case (Suc k')
    from Cons.prems(5) [rule_format, of 0] Suc
    have skip: "\<forall>e'. s = Inr (Some e') \<longrightarrow> pg e' = Inr 0 \<or> (\<exists>err. pg e' = Inl err)"
      by simp
    have rest: "\<forall>j < k'. \<forall>e'. ss ! j = Inr (Some e') \<longrightarrow>
        pg e' = Inr 0 \<or> (\<exists>err. pg e' = Inl err)"
    proof (intro allI impI)
      fix j e' assume "j < k'" "ss ! j = Inr (Some e')"
      with Cons.prems(5) [rule_format, of "Suc j" e'] Suc
      show "pg e' = Inr 0 \<or> (\<exists>err. pg e' = Inl err)"
        by simp
    qed
    from Cons.prems(1,2) Suc have "k' < length ss" "ss ! k' = Inr (Some el)"
      by simp_all
    from Cons.IH [OF this Cons.prems(3,4) rest, of "Suc i"]
    have "try_strategies pg (Suc i) ss = Some (i + k + 1, el)"
      by (simp add: Suc)
    with skip show ?thesis
      by (auto split: sum.splits option.splits)
  qed
qed

text \<open>
  Claim C4, amended. \<open>findElement\<close> returns the locator of the first tier whose locator
  counts at least one element, whatever the tier and however many elements it counts:
  a tier that counts more than one element is accepted like one that counts exactly one,
  and the call does not go on to a later tier. Conversely, when an element is returned,
  it is the locator of a tier that counts at least one element, and every earlier tier
  had no locator, threw, or counted zero. Only the locator that tier 6 builds counts
  exactly one element.
\<close>

theorem findElement_acceptance:
  "(1 \<le> t \<and> t \<le> 6 \<and> strategies pg sel ctx ! (t - 1) = Inr (Some el)
        \<and> pg el = Inr n \<and> 0 < n
        \<and> (\<forall>j < t - 1. \<forall>e'. strategies pg sel ctx ! j = Inr (Some e') \<longrightarrow>
               pg e' = Inr 0 \<or> (\<exists>err. pg e' = Inl err)) \<longrightarrow>
      findElement pg now att sel ctx =
        (att @ [\<lparr>attempt_selectors = sel, strategy = Tier t, success = True,
                 timestamp = now\<rparr>], Inr el))
   \<and> (findElement pg now att sel ctx = (att', Inr el) \<longrightarrow>
      (\<exists>t n. strategy (last att') = Tier t \<and> 1 \<le> t \<and> t \<le> 6
         \<and> strategies pg sel ctx ! (t - 1) = Inr (Some el)
         \<and> pg el = Inr n \<and> 0 < n \<and> (t = 6 \<longrightarrow> n = 1)
         \<and> (\<forall>j < t - 1. \<forall>e'. strategies pg sel ctx ! j = Inr (Some e') \<longrightarrow>
               pg e' = Inr 0 \<or> (\<exists>err. pg e' = Inl err))))"
proof (intro conjI impI)
  assume a: "1 \<le> t \<and> t \<le> 6 \<and> strategies pg sel ctx ! (t - 1) = Inr (Some el)
        \<and> pg el = Inr n \<and> 0 < n
        \<and> (\<forall>j < t - 1. \<forall>e'. strategies pg sel ctx ! j = Inr (Some e') \<longrightarrow>
               pg e' = Inr 0 \<or> (\<exists>err. pg e' = Inl err))"
  then have "t - 1 < length (strategies pg sel ctx)"
    unfolding strategies_length by arith
  from try_strategies_first [OF this, of el pg n 0] a
  have "try_strategies pg 0 (strategies pg sel ctx) = Some (t, el)"
    by simp
  then show "findElement pg now att sel ctx =
        (att @ [\<lparr>attempt_selectors = sel, strategy = Tier t, success = True,
                 timestamp = now\<rparr>], Inr el)"
    by (simp add: findElement_def)
next
  assume r: "findElement pg now att sel ctx = (att', Inr el)"
  from findElement_Inr [OF r] obtain t where
    t: "try_strategies pg 0 (strategies pg sel ctx) = Some (t, el)"
    and att': "att' = att @ [\<lparr>attempt_selectors = sel, strategy = Tier t, success = True,
                         timestamp = now\<rparr>]"
    by blast
  from try_strategies_Some [OF t] obtain n where
    f: "0 < t" "t \<le> 6" "strategies pg sel ctx ! (t - 1) = Inr (Some el)"
      "pg el = Inr n" "0 < n"
      "\<forall>j < t - 1. \<forall>e'. strategies pg sel ctx ! j = Inr (Some e') \<longrightarrow>
               pg e' = Inr 0 \<or> (\<exists>err. pg e' = Inl err)"
    by (auto simp: strategies_length)
  have "t = 6 \<longrightarrow> n = 1"
    using f(3,4) tier6_unique [of pg sel ctx el] by auto
  with f att' show "\<exists>t n. strategy (last att') = Tier t \<and> 1 \<le> t \<and> t \<le> 6
         \<and> strategies pg sel ctx ! (t - 1) = Inr (Some el)
         \<and> pg el = Inr n \<and> 0 < n \<and> (t = 6 \<longrightarrow> n = 1)
         \<and> (\<forall>j < t - 1. \<forall>e'. strategies pg sel ctx ! j = Inr (Some e') \<longrightarrow>
               pg e' = Inr 0 \<or> (\<exists>err. pg e' = Inl err))"
    by (intro exI [of _ t] exI [of _ n]) simp
qed

lemma scenario_D_strategies:
  "strategies pg scenario_D_selectors ctx =
     [Inr (Some testid_x), Inr (Some (Locator ctx ''.y'')), Inr None, Inr None, Inr None, Inr None]"
  by (simp add: strategies_def scenario_D_selectors_def no_hints_def tier1_def tier2_def
      tier3_def tier4_def tier5_def tier6_def truthy_def testid_x_def)

lemma text_save_strategies:
  "strategies pg text_save_selectors ctx =
     [Inr (Some testid_x), Inr (Some (Locator ctx ''.y'')), Inr None, Inr (Some text_save),
      Inr None, Inr None]"
  by (simp add: strategies_def text_save_selectors_def scenario_D_selectors_def no_hints_def
      tier1_def tier2_def tier3_def tier4_def tier5_def tier6_def truthy_def testid_x_def
      text_save_def)

lemma flaky_page_counts:
  "flaky_page testid_x = Inr 0" "flaky_page css_y = Inl (Error ''Timeout'')"
  "flaky_page text_save = Inr 2"
  by (simp_all add: flaky_page_def testid_x_def css_y_def text_save_def)

lemma findElement_scenario_D:
  "findElement scenario_D_page 1000 [] scenario_D_selectors None =
     ([\<lparr>attempt_selectors = scenario_D_selectors, strategy = Tier 2, success = True,
        timestamp = 1000\<rparr>], Inr css_y)"
  by (simp add: findElement_def scenario_D_strategies scenario_D_page_def css_y_def testid_x_def)

lemma findElement_ambiguous:
  "findElement ambiguous_page 1000 [] scenario_D_selectors None =
     ([\<lparr>attempt_selectors = scenario_D_selectors, strategy = Tier 1, success = True,
        timestamp = 1000\<rparr>], Inr testid_x)"
  by (simp add: findElement_def scenario_D_strategies ambiguous_page_def)

text \<open>
  Claim C4, as stated: a tier with more than one candidate is skipped. The loop tests
  \<^verbatim>\<open>count() > 0\<close>: with two elements carrying the test id, tier 1 is accepted and its
  ambiguous locator returned, although tier 2 would match exactly one element.
\<close>

theorem findElement_ambiguous_counterexample:
  "ambiguous_page testid_x = Inr 2 \<and> ambiguous_page css_y = Inr 1
   \<and> snd (findElement ambiguous_page 1000 [] scenario_D_selectors None) = Inr testid_x
   \<and> strategy (last (fst (findElement ambiguous_page 1000 [] scenario_D_selectors None))) = Tier 1"
  by (simp add: findElement_ambiguous) (simp add: ambiguous_page_def css_y_def testid_x_def)

theorem findElement_acceptance_witness:
  "strategies flaky_page text_save_selectors None =
     [Inr (Some testid_x), Inr (Some css_y), Inr None, Inr (Some text_save), Inr None, Inr None]
   \<and> flaky_page testid_x = Inr 0 \<and> flaky_page css_y = Inl (Error ''Timeout'')
   \<and> flaky_page text_save = Inr 2
   \<and> findElement flaky_page 1000 [] text_save_selectors None =
       ([\<lparr>attempt_selectors = text_save_selectors, strategy = Tier 4, success = True,
          timestamp = 1000\<rparr>], Inr text_save)
   \<and> ambiguous_page testid_x = Inr 2
   \<and> findElement ambiguous_page 1000 [] scenario_D_selectors None =
       ([\<lparr>attempt_selectors = scenario_D_selectors, strategy = Tier 1, success = True,
          timestamp = 1000\<rparr>], Inr testid_x)
   \<and> findElement scenario_D_page 1000 [] scenario_D_selectors None =
       ([\<lparr>attempt_selectors = scenario_D_selectors, strategy = Tier 2, success = True,
          timestamp = 1000\<rparr>], Inr css_y)
   \<and> (\<exists>t n. Tier 2 = Tier t \<and> 1 \<le> t \<and> t \<le> 6
         \<and> strategies scenario_D_page scenario_D_selectors None ! (t - 1) = Inr (Some css_y)
         \<and> scenario_D_page css_y = Inr n \<and> 0 < n)"
proof -
  have s: "strategies flaky_page text_save_selectors None =
     [Inr (Some testid_x), Inr (Some css_y), Inr None, Inr (Some text_save), Inr None, Inr None]"
    by (simp add: text_save_strategies css_y_def)
  have early: "\<forall>j < 4 - 1. \<forall>e'. strategies flaky_page text_save_selectors None ! j = Inr (Some e') \<longrightarrow>
      flaky_page e' = Inr 0 \<or> (\<exists>err. flaky_page e' = Inl err)"
  proof (intro allI impI)
    fix j :: nat and e'
    assume "j < 4 - 1" and e: "strategies flaky_page text_save_selectors None ! j = Inr (Some e')"
    then have "j = 0 \<or> j = 1 \<or> j = 2" by auto
    with e show "flaky_page e' = Inr 0 \<or> (\<exists>err. flaky_page e' = Inl err)"
      by (auto simp: s flaky_page_counts)
  qed
  from findElement_acceptance
    [of 4 flaky_page text_save_selectors None text_save 2 1000 "[]" "[]"] early
  have a: "findElement flaky_page 1000 [] text_save_selectors None =
       ([\<lparr>attempt_selectors = text_save_selectors, strategy = Tier 4, success = True,
          timestamp = 1000\<rparr>], Inr text_save)"
    by (simp add: s flaky_page_counts)
  have p: "ambiguous_page testid_x = Inr 2"
    by (simp add: ambiguous_page_def)
  from findElement_acceptance
    [of 1 ambiguous_page scenario_D_selectors None testid_x 2 1000 "[]" "[]"] p
  have b: "findElement ambiguous_page 1000 [] scenario_D_selectors None =
       ([\<lparr>attempt_selectors = scenario_D_selectors, strategy = Tier 1, success = True,
          timestamp = 1000\<rparr>], Inr testid_x)"
    by (simp add: scenario_D_strategies)
  from findElement_acceptance
    [of 2 scenario_D_page scenario_D_selectors None css_y 1 1000 "[]"
      "[\<lparr>attempt_selectors = scenario_D_selectors, strategy = Tier 2, success = True,
        timestamp = 1000\<rparr>]"]
    findElement_scenario_D
  have c: "\<exists>t n. Tier 2 = Tier t \<and> 1 \<le> t \<and> t \<le> 6
         \<and> strategies scenario_D_page scenario_D_selectors None ! (t - 1) = Inr (Some css_y)
         \<and> scenario_D_page css_y = Inr n \<and> 0 < n"
    by auto
  from s a b c p flaky_page_counts findElement_scenario_D show ?thesis by blast
qed

text \<open>
  Claim C5. Every call appends exactly one entry to the ledger, with the descriptor and
  the timestamp: on success the entry has \<open>success = True\<close> and the number of the tier that
  produced the returned element; when all tiers fail (which happens exactly when every
  tier has no locator, throws, or counts zero) the entry has tier \<open>failed\<close> and
  \<open>success = False\<close>, and the call fails with the element-not-found error carrying the
  descriptor. Scenario D resolves at tier 2.
\<close>

theorem findElement_ledger:
  "(\<exists>entry. fst (findElement pg now att sel ctx) = att @ [entry]
      \<and> attempt_selectors entry = sel \<and> timestamp entry = now
      \<and> (case snd (findElement pg now att sel ctx) of
           Inr el \<Rightarrow> success entry
             \<and> (\<exists>t. strategy entry = Tier t \<and> 1 \<le> t \<and> t \<le> 6
                  \<and> strategies pg sel ctx ! (t - 1) = Inr (Some el))
         | Inl err \<Rightarrow> \<not> success entry \<and> strategy entry = Failed
             \<and> err = ElementNotFound sel))
   \<and> ((\<exists>err. snd (findElement pg now att sel ctx) = Inl err) \<longleftrightarrow>
        (\<forall>j < 6. \<forall>e'. strategies pg sel ctx ! j = Inr (Some e') \<longrightarrow>
            pg e' = Inr 0 \<or> (\<exists>err. pg e' = Inl err)))
   \<and> (testId sel = Some x \<and> x \<noteq> [] \<and> css sel = Some y \<and> y \<noteq> []
        \<and> pg (Locator None (''[data-testid='' @ [quote] @ x @ [quote] @ '']'')) = Inr 0
        \<and> pg (Locator ctx y) = Inr 1 \<longrightarrow>
        findElement pg now att sel ctx =
          (att @ [\<lparr>attempt_selectors = sel, strategy = Tier 2, success = True,
                   timestamp = now\<rparr>], Inr (Locator ctx y)))"
proof (intro conjI)
  show "\<exists>entry. fst (findElement pg now att sel ctx) = att @ [entry]
      \<and> attempt_selectors entry = sel \<and> timestamp entry = now
      \<and> (case snd (findElement pg now att sel ctx) of
           Inr el \<Rightarrow> success entry
             \<and> (\<exists>t. strategy entry = Tier t \<and> 1 \<le> t \<and> t \<le> 6
                  \<and> strategies pg sel ctx ! (t - 1) = Inr (Some el))
         | Inl err \<Rightarrow> \<not> success entry \<and> strategy entry = Failed
             \<and> err = ElementNotFound sel)"
  proof (cases "try_strategies pg 0 (strategies pg sel ctx)")
    case None
    then show ?thesis by (simp add: findElement_def)
  next
    case (Some r)
    obtain t el where r: "r = (t, el)" by (cases r)
    from try_strategies_Some [of pg 0 "strategies pg sel ctx" t el] Some r
    have "1 \<le> t" "t \<le> 6" "strategies pg sel ctx ! (t - 1) = Inr (Some el)"
      by (auto simp: strategies_length)
    with Some r show ?thesis by (simp add: findElement_def)
  qed
next
  show "(\<exists>err. snd (findElement pg now att sel ctx) = Inl err) \<longleftrightarrow>
        (\<forall>j < 6. \<forall>e'. strategies pg sel ctx ! j = Inr (Some e') \<longrightarrow>
            pg e' = Inr 0 \<or> (\<exists>err. pg e' = Inl err))"
  proof
    assume "\<exists>err. snd (findElement pg now att sel ctx) = Inl err"
    then have "try_strategies pg 0 (strategies pg sel ctx) = None"
      by (auto simp: findElement_def split: option.splits)
    from try_strategies_None [OF this] show
      "\<forall>j < 6. \<forall>e'. strategies pg sel ctx ! j = Inr (Some e') \<longrightarrow>
            pg e' = Inr 0 \<or> (\<exists>err. pg e' = Inl err)"
      by (simp add: strategies_length)
  next
    assume "\<forall>j < 6. \<forall>e'. strategies pg sel ctx ! j = Inr (Some e') \<longrightarrow>
            pg e' = Inr 0 \<or> (\<exists>err. pg e' = Inl err)"
    then have "try_strategies pg 0 (strategies pg sel ctx) = None"
      by (intro try_strategies_None_conv) (simp add: strategies_length)
    then show "\<exists>err. snd (findElement pg now att sel ctx) = Inl err"
      by (simp add: findElement_def)
  qed
next
  show "testId sel = Some x \<and> x \<noteq> [] \<and> css sel = Some y \<and> y \<noteq> []
        \<and> pg (Locator None (''[data-testid='' @ [quote] @ x @ [quote] @ '']'')) = Inr 0
        \<and> pg (Locator ctx y) = Inr 1 \<longrightarrow>
        findElement pg now att sel ctx =
          (att @ [\<lparr>attempt_selectors = sel, strategy = Tier 2, success = True,
                   timestamp = now\<rparr>], Inr (Locator ctx y))"
    by (simp add: findElement_def strategies_def tier1_def tier2_def truthy_def)
qed

theorem findElement_ledger_witness:
  "findElement scenario_D_page 1000 [] scenario_D_selectors None =
     ([\<lparr>attempt_selectors = scenario_D_selectors, strategy = Tier 2, success = True,
        timestamp = 1000\<rparr>], Inr css_y)
   \<and> findElement empty_page 1000 [] scenario_D_selectors None =
     ([\<lparr>attempt_selectors = scenario_D_selectors, strategy = Failed, success = False,
        timestamp = 1000\<rparr>], Inl (ElementNotFound scenario_D_selectors))"
proof -
  have "findElement scenario_D_page 1000 [] scenario_D_selectors None =
     ([\<lparr>attempt_selectors = scenario_D_selectors, strategy = Tier 2, success = True,
        timestamp = 1000\<rparr>], Inr css_y)"
    using findElement_ledger [of scenario_D_page 1000 "[]" scenario_D_selectors None
        "''x''" "''.y''"]
    by (simp add: scenario_D_selectors_def no_hints_def scenario_D_page_def css_y_def)
  moreover have "findElement empty_page 1000 [] scenario_D_selectors None =
     ([\<lparr>attempt_selectors = scenario_D_selectors, strategy = Failed, success = False,
        timestamp = 1000\<rparr>], Inl (ElementNotFound scenario_D_selectors))"
  proof -
    from findElement_ledger [of empty_page 1000 "[]" scenario_D_selectors None "''x''" "''.y''"]
    have ex: "\<exists>err. snd (findElement empty_page 1000 [] scenario_D_selectors None) = Inl err"
      and led: "\<exists>entry. fst (findElement empty_page 1000 [] scenario_D_selectors None) = [] @ [entry]
      \<and> attempt_selectors entry = scenario_D_selectors \<and> timestamp entry = 1000
      \<and> (case snd (findElement empty_page 1000 [] scenario_D_selectors None) of
           Inr el \<Rightarrow> success entry
             \<and> (\<exists>t. strategy entry = Tier t \<and> 1 \<le> t \<and> t \<le> 6
                  \<and> strategies empty_page scenario_D_selectors None ! (t - 1) = Inr (Some el))
         | Inl err \<Rightarrow> \<not> success entry \<and> strategy entry = Failed
             \<and> err = ElementNotFound scenario_D_selectors)"
      by (simp_all add: empty_page_def)
    from ex obtain err where e: "snd (findElement empty_page 1000 [] scenario_D_selectors None) = Inl err"
      by blast
    from led e obtain entry where
      "fst (findElement empty_page 1000 [] scenario_D_selectors None) = [entry]"
      "attempt_selectors entry = scenario_D_selectors" "timestamp entry = 1000"
      "\<not> success entry" "strategy entry = Failed" "err = ElementNotFound scenario_D_selectors"
      by auto
    with e show ?thesis
      by (cases "findElement empty_page 1000 [] scenario_D_selectors None") (cases entry, simp)
  qed
  ultimately show ?thesis by simp
qed

section \<open>The endpoint resolvers\<close>

lemma executeRequest_None:
  "executeRequest fetch baseURL log e m None =
     (log @ [fetch_request baseURL m e],
      case fetch (fetch_request baseURL m e) of
        Inl err \<Rightarrow> Inl err
      | Inr resp \<Rightarrow>
          if ok resp then Inr resp
          else Inl (Error (m @ '' '' @ e @ '' failed: '' @ show_nat (status resp))))"
  by (simp add: executeRequest_def fetch_request_def Let_def split: sum.splits)

lemma tier_error_None_iff:
  "tier_error fetch baseURL m e = None \<longleftrightarrow>
     (\<exists>resp. fetch (fetch_request baseURL m e) = Inr resp \<and> ok resp)"
  by (auto simp: tier_error_def executeRequest_None split: sum.splits)

lemma tier_error_Some:
  "snd (executeRequest fetch baseURL log e m None) = Inl err \<Longrightarrow>
     tier_error fetch baseURL m e = Some err"
  by (auto simp: tier_error_def executeRequest_None split: sum.splits if_splits)

lemma try_endpoints_Inr:
  "try_endpoints fetch baseURL m i log le es = (log', Inr (k, resp)) \<Longrightarrow>
     i \<le> k \<and> k < i + length es
     \<and> log' = log @ map (fetch_request baseURL m) (take (k - i + 1) es)
     \<and> fetch (fetch_request baseURL m (es ! (k - i))) = Inr resp \<and> ok resp
     \<and> (\<forall>j < k - i. tier_error fetch baseURL m (es ! j) \<noteq> None)"
proof (induction es arbitrary: i log le)
  case Nil
  then show ?case by simp
next
  case (Cons e es)
  show ?case
  proof (cases "snd (executeRequest fetch baseURL log e m None)")
    case (Inr r)
    with Cons.prems have "k = i" "r = resp" "log' = log @ [fetch_request baseURL m e]"
      by (auto simp: executeRequest_None split: sum.splits if_splits)
    moreover from Inr have "fetch (fetch_request baseURL m e) = Inr r \<and> ok r"
      by (auto simp: executeRequest_None split: sum.splits if_splits)
    ultimately show ?thesis by simp
  next
    case (Inl err)
    then have te: "tier_error fetch baseURL m e \<noteq> None"
      using tier_error_Some by fastforce
    from Inl Cons.prems have rec:
      "try_endpoints fetch baseURL m (Suc i) (log @ [fetch_request baseURL m e]) (Some err) es
         = (log', Inr (k, resp))"
      by (auto simp: executeRequest_None split: sum.splits if_splits)
    from Cons.IH [OF rec] have IH: "Suc i \<le> k" "k < Suc i + length es"
      "log' = (log @ [fetch_request baseURL m e])
                @ map (fetch_request baseURL m) (take (k - Suc i + 1) es)"
      "fetch (fetch_request baseURL m (es ! (k - Suc i))) = Inr resp" "ok resp"
      "\<forall>j < k - Suc i. tier_error fetch baseURL m (es ! j) \<noteq> None"
      by auto
    from IH(1) have idx: "k - i = Suc (k - Suc i)" by simp
    have "\<forall>j < k - i. tier_error fetch baseURL m ((e # es) ! j) \<noteq> None"
    proof (intro allI impI)
      fix j assume "j < k - i"
      with idx IH(6) te show "tier_error fetch baseURL m ((e # es) ! j) \<noteq> None"
        by (cases j) auto
    qed
    with IH idx show ?thesis by simp
  qed
qed

lemma try_endpoints_Inl:
  "try_endpoints fetch baseURL m i log le es = (log', Inl le') \<Longrightarrow>
     log' = log @ map (fetch_request baseURL m) es
     \<and> le' = (if es = [] then le else tier_error fetch baseURL m (last es))
     \<and> (\<forall>j < length es. tier_error fetch baseURL m (es ! j) \<noteq> None)"
proof (induction es arbitrary: i log le)
  case Nil
  then show ?case by simp
next
  case (Cons e es)
  show ?case
  proof (cases "snd (executeRequest fetch baseURL log e m None)")
    case (Inr r)
    with Cons.prems show ?thesis
      by (auto simp: executeRequest_None split: sum.splits if_splits)
  next
    case (Inl err)
    then have te: "tier_error fetch baseURL m e = Some err"
      by (rule tier_error_Some)
    from Inl Cons.prems have rec:
      "try_endpoints fetch baseURL m (Suc i) (log @ [fetch_request baseURL m e]) (Some err) es
         = (log', Inl le')"
      by (auto simp: executeRequest_None split: sum.splits if_splits)
    from Cons.IH [OF rec] have IH:
      "log' = (log @ [fetch_request baseURL m e]) @ map (fetch_request baseURL m) es"
      "le' = (if es = [] then Some err else tier_error fetch baseURL m (last es))"
      "\<forall>j < length es. tier_error fetch baseURL m (es ! j) \<noteq> None"
      by auto
    have "\<forall>j < length (e # es). tier_error fetch baseURL m ((e # es) ! j) \<noteq> None"
    proof (intro allI impI)
      fix j assume "j < length (e # es)"
      with IH(3) te show "tier_error fetch baseURL m ((e # es) ! j) \<noteq> None"
        by (cases j) auto
    qed
    with IH te show ?thesis by simp
  qed
qed

lemma fallback_endpoints_length: "length (fallback_endpoints e) = 5"
  by (simp add: fallback_endpoints_def)

lemma executeWithFallbacks_Inr:
  assumes "snd (executeWithFallbacks fetch baseURL log t) = Inr r"
  shows "\<exists>log'. try_endpoints fetch baseURL (test_method t) 0 log None
            (fallback_endpoints (test_endpoint t)) = (log', Inr (healingStrategy r, result r))
          \<and> fst (executeWithFallbacks fetch baseURL log t) = log'
          \<and> healed r = (0 < healingStrategy r) \<and> test r = t \<and> succeeded r"
proof -
  obtain log' out where te: "try_endpoints fetch baseURL (test_method t) 0 log None
            (fallback_endpoints (test_endpoint t)) = (log', out)"
    by (cases "try_endpoints fetch baseURL (test_method t) 0 log None
            (fallback_endpoints (test_endpoint t))")
  with assms obtain i resp where "out = Inr (i, resp)"
    by (cases out) (auto simp: executeWithFallbacks_def)
  with te assms show ?thesis
    by (auto simp: executeWithFallbacks_def)
qed

lemma executeWithFallbacks_Inl:
  assumes "snd (executeWithFallbacks fetch baseURL log t) = Inl le"
  shows "\<exists>log'. try_endpoints fetch baseURL (test_method t) 0 log None
            (fallback_endpoints (test_endpoint t)) = (log', Inl le)
          \<and> fst (executeWithFallbacks fetch baseURL log t) = log'"
proof -
  obtain log' out where te: "try_endpoints fetch baseURL (test_method t) 0 log None
            (fallback_endpoints (test_endpoint t)) = (log', out)"
    by (cases "try_endpoints fetch baseURL (test_method t) 0 log None
            (fallback_endpoints (test_endpoint t))")
  with assms have "out = Inl le"
    by (cases out) (auto simp: executeWithFallbacks_def)
  with te assms show ?thesis
    by (auto simp: executeWithFallbacks_def)
qed

lemma executeRequest_snd:
  "snd (executeRequest fetch baseURL log e m None) = Inl err \<longleftrightarrow>
     tier_error fetch baseURL m e = Some err"
  by (auto simp: tier_error_def executeRequest_None split: sum.splits if_splits)

lemma try_endpoints_first:
  "k < length es \<Longrightarrow> tier_error fetch baseURL m (es ! k) = None \<Longrightarrow>
   \<forall>j < k. tier_error fetch baseURL m (es ! j) \<noteq> None \<Longrightarrow>
   \<exists>resp. fetch (fetch_request baseURL m (es ! k)) = Inr resp \<and> ok resp
     \<and> try_endpoints fetch baseURL m i log le es =
         (log @ map (fetch_request baseURL m) (take (k + 1) es), Inr (i + k, resp))"
proof (induction es arbitrary: i log le k)
  case Nil
  then show ?case by simp
next
  case (Cons e es)
  show ?case
  proof (cases k)
    case 0
    with Cons.prems(2) obtain resp where
      "fetch (fetch_request baseURL m e) = Inr resp" "ok resp"
      by (auto simp: tier_error_None_iff)
    with 0 show ?thesis
      by (simp add: executeRequest_None)
  next
    case (Suc k')
    from Cons.prems(3) Suc obtain err where err: "tier_error fetch baseURL m e = Some err"
      by fastforce
    then have step: "executeRequest fetch baseURL log e m None
        = (log @ [fetch_request baseURL m e], Inl err)"
      by (auto simp: tier_error_def executeRequest_None split: sum.splits if_splits)
    have rest: "\<forall>j < k'. tier_error fetch baseURL m (es ! j) \<noteq> None"
    proof (intro allI impI)
      fix j assume "j < k'"
      with Cons.prems(3) [rule_format, of "Suc j"] Suc
      show "tier_error fetch baseURL m (es ! j) \<noteq> None"
        by simp
    qed
    from Cons.prems(1,2) Suc have "k' < length es" "tier_error fetch baseURL m (es ! k') = None"
      by simp_all
    from Cons.IH [OF this rest, of "Suc i" "log @ [fetch_request baseURL m e]" "Some err"]
    obtain resp where "fetch (fetch_request baseURL m (es ! k')) = Inr resp" "ok resp"
      "try_endpoints fetch baseURL m (Suc i) (log @ [fetch_request baseURL m e]) (Some err) es =
         ((log @ [fetch_request baseURL m e]) @ map (fetch_request baseURL m) (take (k' + 1) es),
          Inr (Suc i + k', resp))"
      by blast
    with step Suc show ?thesis
      by simp
  qed
qed

lemma try_endpoints_all_fail:
  "\<forall>j < length es. tier_error fetch baseURL m (es ! j) \<noteq> None \<Longrightarrow>
   try_endpoints fetch baseURL m i log le es =
     (log @ map (fetch_request baseURL m) es,
      Inl (if es = [] then le else tier_error fetch baseURL m (last es)))"
proof (induction es arbitrary: i log le)
  case Nil
  then show ?case by simp
next
  case (Cons e es)
  from Cons.prems [rule_format, of 0] obtain err where err: "tier_error fetch baseURL m e = Some err"
    by fastforce
  then have step: "executeRequest fetch baseURL log e m None
      = (log @ [fetch_request baseURL m e], Inl err)"
    by (auto simp: tier_error_def executeRequest_None split: sum.splits if_splits)
  have rest: "\<forall>j < length es. tier_error fetch baseURL m (es ! j) \<noteq> None"
  proof (intro allI impI)
    fix j assume "j < length es"
    with Cons.prems [rule_format, of "Suc j"] show "tier_error fetch baseURL m (es ! j) \<noteq> None"
      by simp
  qed
  from Cons.IH [OF rest, of "Suc i" "log @ [fetch_request baseURL m e]" "Some err"] step err
  show ?case by simp
qed

text \<open>
  Claim C6, amended. In \<open>executeWithFallbacks\<close> a tier is accepted exactly when its
  request returns a response with a status from 200 to 299: the first such tier in order
  is the one returned, with its response and its index, and every tier before it failed.
  A response with any other status fails its tier with the error
  \<open>method endpoint failed: status\<close>, exactly as a network error fails it. When all five
  tiers fail, the error of the last tier is thrown.
\<close>

theorem executeWithFallbacks_acceptance:
  "(k < 5
      \<and> fetch (fetch_request baseURL (test_method t)
                 (fallback_endpoints (test_endpoint t) ! k)) = Inr resp'
      \<and> ok resp'
      \<and> (\<forall>j < k.
            tier_error fetch baseURL (test_method t) (fallback_endpoints (test_endpoint t) ! j)
              \<noteq> None) \<longrightarrow>
      snd (executeWithFallbacks fetch baseURL log t) =
        Inr \<lparr>test = t, result = resp', succeeded = True, healingStrategy = k,
             healed = (0 < k)\<rparr>)
   \<and> (snd (executeWithFallbacks fetch baseURL log t) = Inr r \<longrightarrow>
      ok (result r) \<and> healingStrategy r < 5 \<and> healed r = (0 < healingStrategy r)
      \<and> fetch (fetch_request baseURL (test_method t)
                 (fallback_endpoints (test_endpoint t) ! healingStrategy r)) = Inr (result r)
      \<and> (\<forall>j < healingStrategy r.
            tier_error fetch baseURL (test_method t) (fallback_endpoints (test_endpoint t) ! j)
              \<noteq> None))
   \<and> ((\<forall>j < 5. tier_error fetch baseURL (test_method t)
                  (fallback_endpoints (test_endpoint t) ! j) \<noteq> None) \<longrightarrow>
        snd (executeWithFallbacks fetch baseURL log t) =
          Inl (tier_error fetch baseURL (test_method t)
                 (fallback_endpoints (test_endpoint t) ! 4)))
   \<and> (fetch (fetch_request baseURL m e) = Inr resp \<and> \<not> ok resp \<longrightarrow>
        tier_error fetch baseURL m e =
          Some (Error (m @ '' '' @ e @ '' failed: '' @ show_nat (status resp))))
   \<and> (fetch (fetch_request baseURL m e) = Inl err \<longrightarrow> tier_error fetch baseURL m e = Some err)
   \<and> (fetch (fetch_request baseURL m e) = Inr resp \<and> ok resp \<longrightarrow>
        tier_error fetch baseURL m e = None)"
proof (intro conjI impI)
  let ?es = "fallback_endpoints (test_endpoint t)"
  assume a: "k < 5
      \<and> fetch (fetch_request baseURL (test_method t) (?es ! k)) = Inr resp'
      \<and> ok resp'
      \<and> (\<forall>j < k. tier_error fetch baseURL (test_method t) (?es ! j) \<noteq> None)"
  then have k: "k < length ?es"
    and none: "tier_error fetch baseURL (test_method t) (?es ! k) = None"
    and before: "\<forall>j < k. tier_error fetch baseURL (test_method t) (?es ! j) \<noteq> None"
    by (auto simp: fallback_endpoints_length tier_error_None_iff)
  from try_endpoints_first [OF k none before, of 0 log None] a
  have "try_endpoints fetch baseURL (test_method t) 0 log None ?es =
      (log @ map (fetch_request baseURL (test_method t)) (take (k + 1) ?es), Inr (k, resp'))"
    by auto
  then show "snd (executeWithFallbacks fetch baseURL log t) =
        Inr \<lparr>test = t, result = resp', succeeded = True, healingStrategy = k,
             healed = (0 < k)\<rparr>"
    by (simp add: executeWithFallbacks_def)
next
  assume a: "snd (executeWithFallbacks fetch baseURL log t) = Inr r"
  from executeWithFallbacks_Inr [OF a] obtain log' where
    te: "try_endpoints fetch baseURL (test_method t) 0 log None
            (fallback_endpoints (test_endpoint t)) = (log', Inr (healingStrategy r, result r))"
    and h: "healed r = (0 < healingStrategy r)"
    by auto
  from try_endpoints_Inr [OF te] h
  show "ok (result r)" "healingStrategy r < 5" "healed r = (0 < healingStrategy r)"
    "fetch (fetch_request baseURL (test_method t)
                 (fallback_endpoints (test_endpoint t) ! healingStrategy r)) = Inr (result r)"
    "\<forall>j < healingStrategy r.
            tier_error fetch baseURL (test_method t) (fallback_endpoints (test_endpoint t) ! j)
              \<noteq> None"
    by (simp_all add: fallback_endpoints_length)
next
  assume all: "\<forall>j < 5. tier_error fetch baseURL (test_method t)
                  (fallback_endpoints (test_endpoint t) ! j) \<noteq> None"
  then have "\<forall>j < length (fallback_endpoints (test_endpoint t)).
      tier_error fetch baseURL (test_method t) (fallback_endpoints (test_endpoint t) ! j) \<noteq> None"
    by (simp add: fallback_endpoints_length)
  from try_endpoints_all_fail [OF this, of 0 log None]
  show "snd (executeWithFallbacks fetch baseURL log t) =
          Inl (tier_error fetch baseURL (test_method t)
                 (fallback_endpoints (test_endpoint t) ! 4))"
    by (simp add: executeWithFallbacks_def) (simp add: fallback_endpoints_def)
next
  assume "fetch (fetch_request baseURL m e) = Inr resp \<and> \<not> ok resp"
  then show "tier_error fetch baseURL m e =
          Some (Error (m @ '' '' @ e @ '' failed: '' @ show_nat (status resp)))"
    by (simp add: tier_error_def executeRequest_None)
next
  assume "fetch (fetch_request baseURL m e) = Inl err"
  then show "tier_error fetch baseURL m e = Some err"
    by (simp add: tier_error_def executeRequest_None)
next
  assume "fetch (fetch_request baseURL m e) = Inr resp \<and> ok resp"
  then show "tier_error fetch baseURL m e = None"
    by (simp add: tier_error_def executeRequest_None)
qed

lemma widget_endpoints:
  "fallback_endpoints ''/widget'' = [''/widget'', ''/v1/widget'', ''/v2/widget'', ''/widgets'', ''/widget'']"
  by (simp add: fallback_endpoints_def strip_trailing_slash_def endsWith_def word_at_end_def
      is_word_char_def)

lemma widget_slash_endpoints:
  "fallback_endpoints ''/widget/'' =
     [''/widget/'', ''/v1/widget/'', ''/v2/widget/'', ''/widgets'', ''/widget'']"
  by (simp add: fallback_endpoints_def strip_trailing_slash_def endsWith_def word_at_end_def
      is_word_char_def)

lemma v1_server_run:
  "executeWithFallbacks v1_server ''http://localhost:3000'' [] widget_test =
     ([fetch_request ''http://localhost:3000'' ''GET'' ''/widget'',
       fetch_request ''http://localhost:3000'' ''GET'' ''/v1/widget''],
      Inr \<lparr>test = widget_test, result = plain_response 200, succeeded = True,
           healingStrategy = 1, healed = True\<rparr>)"
  by (simp add: executeWithFallbacks_def widget_test_def widget_endpoints executeRequest_None
      v1_server_def fetch_request_def plain_response_def ok_def)

lemma unreachable_run:
  "executeWithFallbacks unreachable ''http://localhost:3000'' [] widget_slash_test =
     (map (fetch_request ''http://localhost:3000'' ''GET'')
        [''/widget/'', ''/v1/widget/'', ''/v2/widget/'', ''/widgets'', ''/widget''],
      Inl (Some (Error ''fetch failed'')))"
  by (simp add: executeWithFallbacks_def widget_slash_test_def widget_slash_endpoints
      executeRequest_None unreachable_def)

lemma plural_server_tiers:
  "tier_error plural_server ''http://localhost:3000'' ''GET'' ''/widget''
     = Some (Error ''GET /widget failed: 404'')"
  "tier_error plural_server ''http://localhost:3000'' ''GET'' ''/v1/widget''
     = Some (Error ''GET /v1/widget failed: 404'')"
  "tier_error plural_server ''http://localhost:3000'' ''GET'' ''/v2/widget''
     = Some (Error ''GET /v2/widget failed: 404'')"
  "plural_server (fetch_request ''http://localhost:3000'' ''GET'' ''/widgets'')
     = Inr (plain_response 200)"
  "tier_error plural_server ''http://localhost:3000'' ''GET'' ''/widgets'' = None"
  by (simp_all add: tier_error_def executeRequest_None plural_server_def fetch_request_def
      plain_response_def ok_def show_nat.simps [of 404] show_nat.simps [of 40]
      show_nat.simps [of 4] digit_char_def)

lemma plural_server_before:
  "\<forall>j < 3. tier_error plural_server ''http://localhost:3000'' ''GET''
      ([''/widget'', ''/v1/widget'', ''/v2/widget'', ''/widgets'', ''/widget''] ! j) \<noteq> None"
proof (intro allI impI)
  fix j :: nat assume "j < 3"
  then have "j = 0 \<or> j = 1 \<or> j = 2" by auto
  then show "tier_error plural_server ''http://localhost:3000'' ''GET''
      ([''/widget'', ''/v1/widget'', ''/v2/widget'', ''/widgets'', ''/widget''] ! j) \<noteq> None"
    by (auto simp: plural_server_tiers)
qed

text \<open>
  Claim C6, as stated: the first tier that gets any HTTP response is accepted, whatever
  the status. \<open>executeRequest\<close> throws on \<^verbatim>\<open>!response.ok\<close>: the exact path answers 404,
  and the resolver goes on to \<^verbatim>\<open>/v1/widget\<close> and reports that tier.
\<close>

theorem executeWithFallbacks_status_counterexample:
  "v1_server (fetch_request ''http://localhost:3000'' ''GET'' ''/widget'') = Inr (plain_response 404)
   \<and> snd (executeWithFallbacks v1_server ''http://localhost:3000'' [] widget_test) =
       Inr \<lparr>test = widget_test, result = plain_response 200, succeeded = True,
            healingStrategy = 1, healed = True\<rparr>"
  by (simp add: v1_server_run) (simp add: v1_server_def fetch_request_def)

theorem executeWithFallbacks_acceptance_witness:
  "snd (executeWithFallbacks plural_server ''http://localhost:3000'' [] widget_test) =
     Inr \<lparr>test = widget_test, result = plain_response 200, succeeded = True,
          healingStrategy = 3, healed = True\<rparr>
   \<and> snd (executeWithFallbacks v1_server ''http://localhost:3000'' [] widget_test) =
     Inr \<lparr>test = widget_test, result = plain_response 200, succeeded = True,
          healingStrategy = 1, healed = True\<rparr>
   \<and> ok (plain_response 200)
   \<and> tier_error v1_server ''http://localhost:3000'' ''GET'' ''/widget'' =
       Some (Error ''GET /widget failed: 404'')
   \<and> tier_error v1_server ''http://localhost:3000'' ''GET'' ''/v1/widget'' = None
   \<and> tier_error unreachable ''http://localhost:3000'' ''GET'' ''/widget'' =
       Some (Error ''fetch failed'')
   \<and> snd (executeWithFallbacks unreachable ''http://localhost:3000'' [] widget_slash_test) =
       Inl (Some (Error ''fetch failed''))"
proof -
  let ?b = "''http://localhost:3000''"
  have r404: "v1_server (fetch_request ?b ''GET'' ''/widget'') = Inr (plain_response 404)
      \<and> \<not> ok (plain_response 404)"
    by (simp add: v1_server_def fetch_request_def plain_response_def ok_def)
  have r200: "v1_server (fetch_request ?b ''GET'' ''/v1/widget'') = Inr (plain_response 200)
      \<and> ok (plain_response 200)"
    by (simp add: v1_server_def fetch_request_def plain_response_def ok_def)
  have net: "unreachable (fetch_request ?b ''GET'' e) = Inl (Error ''fetch failed'')" for e
    by (simp add: unreachable_def)
  have s404: "show_nat 404 = ''404''"
    by (simp add: show_nat.simps [of 404] show_nat.simps [of 40] show_nat.simps [of 4]
        digit_char_def)
  note a = executeWithFallbacks_acceptance
    [of 1 v1_server ?b widget_test "plain_response 200" "[]"
      "\<lparr>test = widget_test, result = plain_response 200, succeeded = True,
          healingStrategy = 1, healed = True\<rparr>" "''GET''" "''/widget''" "plain_response 404"
      "Error ''x''"]
  note b = executeWithFallbacks_acceptance
    [of 1 v1_server ?b widget_test "plain_response 200" "[]"
      "\<lparr>test = widget_test, result = plain_response 200, succeeded = True,
          healingStrategy = 1, healed = True\<rparr>" "''GET''" "''/v1/widget''" "plain_response 200"
      "Error ''x''"]
  note c = executeWithFallbacks_acceptance
    [of 1 unreachable ?b widget_slash_test "plain_response 200" "[]"
      "\<lparr>test = widget_test, result = plain_response 200, succeeded = True,
          healingStrategy = 1, healed = True\<rparr>" "''GET''" "''/widget''" "plain_response 200"
      "Error ''fetch failed''"]
  note d = executeWithFallbacks_acceptance
    [of 3 plural_server ?b widget_test "plain_response 200" "[]"
      "\<lparr>test = widget_test, result = plain_response 200, succeeded = True,
          healingStrategy = 1, healed = True\<rparr>" "''GET''" "''/widget''" "plain_response 200"
      "Error ''x''"]
  have te: "tier_error unreachable ?b ''GET'' e = Some (Error ''fetch failed'')" for e
    by (simp add: tier_error_def executeRequest_None unreachable_def)
  have all: "\<forall>j<5. tier_error unreachable ?b (test_method widget_slash_test)
                  (fallback_endpoints (test_endpoint widget_slash_test) ! j) \<noteq> None"
    by (simp add: widget_slash_test_def te)
  from a r404 s404 have p1: "tier_error v1_server ?b ''GET'' ''/widget'' =
       Some (Error ''GET /widget failed: 404'')"
    by (simp add: plain_response_def)
  from b r200 have p2: "tier_error v1_server ?b ''GET'' ''/v1/widget'' = None"
    by simp
  from c net have p3: "tier_error unreachable ?b ''GET'' ''/widget'' = Some (Error ''fetch failed'')"
    by simp
  from c all have p4: "snd (executeWithFallbacks unreachable ?b [] widget_slash_test) =
       Inl (Some (Error ''fetch failed''))"
    by (simp add: widget_slash_test_def te)
  have ok200: "ok (plain_response 200)"
    by (simp add: plain_response_def ok_def)
  from d plural_server_before plural_server_tiers(4) ok200
  have p5: "snd (executeWithFallbacks plural_server ?b [] widget_test) =
     Inr \<lparr>test = widget_test, result = plain_response 200, succeeded = True,
          healingStrategy = 3, healed = True\<rparr>"
    by (simp add: widget_test_def widget_endpoints)
  from p1 p2 p3 p4 p5 r200 v1_server_run show ?thesis by simp
qed

lemma run_cases_log:
  "run_cases rv axios u m change log tcs = (log', rs) \<Longrightarrow>
     \<exists>reqs. log' = log @ reqs \<and> length reqs = length tcs \<and> list_all (\<lambda>q. url q = u) reqs"
proof (induction tcs arbitrary: log log' rs)
  case Nil
  then show ?case by simp
next
  case (Cons tc tcs)
  obtain l1 answer where mk: "makeRequest axios log u m (case_data tc)
             (case case_headers tc of None \<Rightarrow> [] | Some hs \<Rightarrow> hs) = (l1, answer)"
    by (cases "makeRequest axios log u m (case_data tc)
             (case case_headers tc of None \<Rightarrow> [] | Some hs \<Rightarrow> hs)")
  then obtain q where q: "l1 = log @ [q]" "url q = u"
    by (auto simp: makeRequest_def Let_def)
  obtain l2 rest where rc: "run_cases rv axios u m change l1 tcs = (l2, rest)"
    by (cases "run_cases rv axios u m change l1 tcs")
  from Cons.IH [OF rc] obtain reqs where
    reqs: "l2 = l1 @ reqs" "length reqs = length tcs" "list_all (\<lambda>q. url q = u) reqs"
    by blast
  from Cons.prems mk rc have "log' = l2" by simp
  with q reqs have "log' = log @ (q # reqs) \<and> length (q # reqs) = length (tc # tcs)
      \<and> list_all (\<lambda>q. url q = u) (q # reqs)"
    by simp
  then show ?case by blast
qed

lemma executeEndpointTest_returns:
  "\<exists>reqs r. executeEndpointTest rv axios baseURL log ep m change = (log @ reqs, Inr r)
     \<and> length reqs = length (generateTestCases m change)
     \<and> list_all (\<lambda>q. url q = baseURL @ ep) reqs \<and> tested_endpoint r = ep"
proof -
  obtain log' rs where rc:
    "run_cases rv axios (baseURL @ ep) m change log (generateTestCases m change) = (log', rs)"
    by (cases "run_cases rv axios (baseURL @ ep) m change log (generateTestCases m change)")
  from run_cases_log [OF rc] obtain reqs where
    "log' = log @ reqs" "length reqs = length (generateTestCases m change)"
    "list_all (\<lambda>q. url q = baseURL @ ep) reqs"
    by blast
  with rc show ?thesis
    by (simp add: executeEndpointTest_def)
qed

lemma healingStrategies_length: "length (healingStrategies change) = 6"
  by (simp add: healingStrategies_def)

lemma try_healing_first:
  "k < length hs \<Longrightarrow> snd (tier_test (fst (hs ! k))) = Inr r \<Longrightarrow>
   \<forall>j < k. \<exists>err. snd (tier_test (fst (hs ! j))) = Inl err \<Longrightarrow>
   try_healing tier_test log hs =
     (log @ concat (map (\<lambda>s. fst (tier_test (fst s))) (take (k + 1) hs)),
      Some (r, snd (hs ! k)))"
proof (induction hs arbitrary: log k)
  case Nil
  then show ?case by simp
next
  case (Cons h hs)
  obtain u version where h: "h = (u, version)" by (cases h)
  obtain reqs out where tt: "tier_test u = (reqs, out)" by (cases "tier_test u")
  show ?case
  proof (cases k)
    case 0
    with Cons.prems(2) h tt show ?thesis by simp
  next
    case (Suc k')
    from Cons.prems(3) [rule_format, of 0] Suc h tt obtain err where out: "out = Inl err"
      by auto
    have rest: "\<forall>j < k'. \<exists>err. snd (tier_test (fst (hs ! j))) = Inl err"
    proof (intro allI impI)
      fix j assume "j < k'"
      with Cons.prems(3) [rule_format, of "Suc j"] Suc
      show "\<exists>err. snd (tier_test (fst (hs ! j))) = Inl err"
        by simp
    qed
    from Cons.prems(1,2) Suc have "k' < length hs" "snd (tier_test (fst (hs ! k'))) = Inr r"
      by simp_all
    from Cons.IH [OF this rest, of "log @ reqs"] h tt out Suc
    show ?thesis by simp
  qed
qed

lemma try_healing_all_throw:
  "\<forall>j < length hs. \<exists>err. snd (tier_test (fst (hs ! j))) = Inl err \<Longrightarrow>
   try_healing tier_test log hs =
     (log @ concat (map (\<lambda>s. fst (tier_test (fst s))) hs), None)"
proof (induction hs arbitrary: log)
  case Nil
  then show ?case by simp
next
  case (Cons h hs)
  obtain u version where h: "h = (u, version)" by (cases h)
  obtain reqs out where tt: "tier_test u = (reqs, out)" by (cases "tier_test u")
  from Cons.prems [rule_format, of 0] h tt obtain err where out: "out = Inl err"
    by auto
  have rest: "\<forall>j < length hs. \<exists>err. snd (tier_test (fst (hs ! j))) = Inl err"
  proof (intro allI impI)
    fix j assume "j < length hs"
    with Cons.prems [rule_format, of "Suc j"]
    show "\<exists>err. snd (tier_test (fst (hs ! j))) = Inl err"
      by simp
  qed
  from Cons.IH [OF rest, of "log @ reqs"] h tt out show ?case by simp
qed

text \<open>
  Claim C7, amended. \<open>APITester.testChangedEndpoint\<close> takes its six tiers in the order
  exact, \<^verbatim>\<open>/api\<close>, \<^verbatim>\<open>/v1\<close>, \<^verbatim>\<open>/v2\<close>, trailing slash stripped, pluralised, and stops at
  the first tier whose endpoint test returns without throwing: the requests of a call are
  those of the tiers up to and including that one, in order, and the tier is recorded as
  the healing used; when every tier throws, all six have run and none is recorded.
  \<open>SelfHealingAPI.executeWithFallbacks\<close> has five tiers in the order exact, \<^verbatim>\<open>/v1\<close>,
  \<^verbatim>\<open>/v2\<close>, pluralised, trailing slash stripped; it issues one request per tier, in that
  order, up to and including the first tier that succeeds (all five when none does), and
  exactly one request when the exact path succeeds.
\<close>

theorem endpoint_tier_order:
  "map fst (healingStrategies change) =
     [endpoint change, ''/api'' @ endpoint change, ''/v1'' @ endpoint change,
      ''/v2'' @ endpoint change, strip_trailing_slash (endpoint change),
      pluralizeEndpoint (endpoint change)]
   \<and> (k < 6 \<and> snd (tier_test (fst (healingStrategies change ! k))) = Inr r
        \<and> (\<forall>j < k. \<exists>err. snd (tier_test (fst (healingStrategies change ! j))) = Inl err) \<longrightarrow>
        try_healing tier_test log (healingStrategies change) =
          (log @ concat (map (\<lambda>s. fst (tier_test (fst s)))
                           (take (k + 1) (healingStrategies change))),
           Some (r, snd (healingStrategies change ! k))))
   \<and> ((\<forall>j < 6. \<exists>err. snd (tier_test (fst (healingStrategies change ! j))) = Inl err) \<longrightarrow>
        try_healing tier_test log (healingStrategies change) =
          (log @ concat (map (\<lambda>s. fst (tier_test (fst s))) (healingStrategies change)), None))
   \<and> (k < 6
        \<and> snd (executeEndpointTest rv axios baseURL [] (fst (healingStrategies change ! k))
                 (change_method change) change) = Inr r
        \<and> (\<forall>j < k. \<exists>err.
              snd (executeEndpointTest rv axios baseURL [] (fst (healingStrategies change ! j))
                     (change_method change) change) = Inl err) \<longrightarrow>
        (\<exists>entry.
           testChangedEndpoint rv axios baseURL (log, results) change =
             (log @ concat (map (\<lambda>s. fst (executeEndpointTest rv axios baseURL [] (fst s)
                                             (change_method change) change))
                              (take (k + 1) (healingStrategies change))),
              results @ [entry])
           \<and> tests entry =
               [\<lparr>entry_result = r, entry_healingStrategy = snd (healingStrategies change ! k),
                 entry_healed = (snd (healingStrategies change ! k) \<noteq> [])\<rparr>]
           \<and> overall_success entry
           \<and> healingUsed entry = Some (snd (healingStrategies change ! k))))
   \<and> fallback_endpoints e =
       [e, ''/v1'' @ e, ''/v2'' @ e, append_s e, strip_trailing_slash e]
   \<and> (i < 5
        \<and> tier_error fetch baseURL (test_method t) (fallback_endpoints (test_endpoint t) ! i) = None
        \<and> (\<forall>j < i. tier_error fetch baseURL (test_method t)
                      (fallback_endpoints (test_endpoint t) ! j) \<noteq> None) \<longrightarrow>
        fst (executeWithFallbacks fetch baseURL log t) =
          log @ map (fetch_request baseURL (test_method t))
                  (take (i + 1) (fallback_endpoints (test_endpoint t))))
   \<and> ((\<forall>j < 5. tier_error fetch baseURL (test_method t)
                  (fallback_endpoints (test_endpoint t) ! j) \<noteq> None) \<longrightarrow>
        fst (executeWithFallbacks fetch baseURL log t) =
          log @ map (fetch_request baseURL (test_method t)) (fallback_endpoints (test_endpoint t)))
   \<and> (snd (executeWithFallbacks fetch baseURL log t) = Inr res \<longrightarrow>
        fst (executeWithFallbacks fetch baseURL log t) =
          log @ map (fetch_request baseURL (test_method t))
                  (take (healingStrategy res + 1) (fallback_endpoints (test_endpoint t))))
   \<and> (snd (executeWithFallbacks fetch baseURL log t) = Inl err \<longrightarrow>
        fst (executeWithFallbacks fetch baseURL log t) =
          log @ map (fetch_request baseURL (test_method t)) (fallback_endpoints (test_endpoint t)))
   \<and> (tier_error fetch baseURL (test_method t) (test_endpoint t) = None \<longrightarrow>
        fst (executeWithFallbacks fetch baseURL log t) =
          log @ [fetch_request baseURL (test_method t) (test_endpoint t)])"
proof (intro conjI impI)
  show "map fst (healingStrategies change) =
     [endpoint change, ''/api'' @ endpoint change, ''/v1'' @ endpoint change,
      ''/v2'' @ endpoint change, strip_trailing_slash (endpoint change),
      pluralizeEndpoint (endpoint change)]"
    by (simp add: healingStrategies_def)
next
  assume a: "k < 6 \<and> snd (tier_test (fst (healingStrategies change ! k))) = Inr r
        \<and> (\<forall>j < k. \<exists>err. snd (tier_test (fst (healingStrategies change ! j))) = Inl err)"
  then have "k < length (healingStrategies change)"
    by (simp add: healingStrategies_length)
  from try_healing_first [OF this, of tier_test r log] a
  show "try_healing tier_test log (healingStrategies change) =
          (log @ concat (map (\<lambda>s. fst (tier_test (fst s)))
                           (take (k + 1) (healingStrategies change))),
           Some (r, snd (healingStrategies change ! k)))"
    by blast
next
  assume "\<forall>j < 6. \<exists>err. snd (tier_test (fst (healingStrategies change ! j))) = Inl err"
  then have "\<forall>j < length (healingStrategies change).
      \<exists>err. snd (tier_test (fst (healingStrategies change ! j))) = Inl err"
    by (simp add: healingStrategies_length)
  from try_healing_all_throw [OF this, of log]
  show "try_healing tier_test log (healingStrategies change) =
          (log @ concat (map (\<lambda>s. fst (tier_test (fst s))) (healingStrategies change)), None)"
    .
next
  let ?tt = "\<lambda>u. executeEndpointTest rv axios baseURL [] u (change_method change) change"
  assume a: "k < 6
        \<and> snd (executeEndpointTest rv axios baseURL [] (fst (healingStrategies change ! k))
                 (change_method change) change) = Inr r
        \<and> (\<forall>j < k. \<exists>err.
              snd (executeEndpointTest rv axios baseURL [] (fst (healingStrategies change ! j))
                     (change_method change) change) = Inl err)"
  then have "k < length (healingStrategies change)"
    by (simp add: healingStrategies_length)
  from try_healing_first [OF this, of ?tt r log] a
  have "try_healing ?tt log (healingStrategies change) =
          (log @ concat (map (\<lambda>s. fst (?tt (fst s))) (take (k + 1) (healingStrategies change))),
           Some (r, snd (healingStrategies change ! k)))"
    by blast
  then show "\<exists>entry.
           testChangedEndpoint rv axios baseURL (log, results) change =
             (log @ concat (map (\<lambda>s. fst (executeEndpointTest rv axios baseURL [] (fst s)
                                             (change_method change) change))
                              (take (k + 1) (healingStrategies change))),
              results @ [entry])
           \<and> tests entry =
               [\<lparr>entry_result = r, entry_healingStrategy = snd (healingStrategies change ! k),
                 entry_healed = (snd (healingStrategies change ! k) \<noteq> [])\<rparr>]
           \<and> overall_success entry
           \<and> healingUsed entry = Some (snd (healingStrategies change ! k))"
    by (simp add: testChangedEndpoint_def)
next
  show "fallback_endpoints e = [e, ''/v1'' @ e, ''/v2'' @ e, append_s e, strip_trailing_slash e]"
    by (simp add: fallback_endpoints_def)
next
  let ?es = "fallback_endpoints (test_endpoint t)"
  assume a: "i < 5
        \<and> tier_error fetch baseURL (test_method t) (?es ! i) = None
        \<and> (\<forall>j < i. tier_error fetch baseURL (test_method t) (?es ! j) \<noteq> None)"
  then have "i < length ?es"
    by (simp add: fallback_endpoints_length)
  from try_endpoints_first [OF this, of fetch baseURL "test_method t" 0 log None] a
  obtain resp where "try_endpoints fetch baseURL (test_method t) 0 log None ?es =
      (log @ map (fetch_request baseURL (test_method t)) (take (i + 1) ?es), Inr (i, resp))"
    by auto
  then show "fst (executeWithFallbacks fetch baseURL log t) =
          log @ map (fetch_request baseURL (test_method t)) (take (i + 1) ?es)"
    by (simp add: executeWithFallbacks_def)
next
  assume "\<forall>j < 5. tier_error fetch baseURL (test_method t)
                  (fallback_endpoints (test_endpoint t) ! j) \<noteq> None"
  then have "\<forall>j < length (fallback_endpoints (test_endpoint t)).
      tier_error fetch baseURL (test_method t) (fallback_endpoints (test_endpoint t) ! j) \<noteq> None"
    by (simp add: fallback_endpoints_length)
  from try_endpoints_all_fail [OF this, of 0 log None]
  show "fst (executeWithFallbacks fetch baseURL log t) =
          log @ map (fetch_request baseURL (test_method t)) (fallback_endpoints (test_endpoint t))"
    by (simp add: executeWithFallbacks_def)
next
  assume a: "snd (executeWithFallbacks fetch baseURL log t) = Inr res"
  from executeWithFallbacks_Inr [OF a] obtain log' where
    te: "try_endpoints fetch baseURL (test_method t) 0 log None
            (fallback_endpoints (test_endpoint t)) = (log', Inr (healingStrategy res, result res))"
    and l: "fst (executeWithFallbacks fetch baseURL log t) = log'"
    by auto
  from try_endpoints_Inr [OF te] l
  show "fst (executeWithFallbacks fetch baseURL log t) =
          log @ map (fetch_request baseURL (test_method t))
                  (take (healingStrategy res + 1) (fallback_endpoints (test_endpoint t)))"
    by simp
next
  assume a: "snd (executeWithFallbacks fetch baseURL log t) = Inl err"
  from executeWithFallbacks_Inl [OF a] obtain log' where
    te: "try_endpoints fetch baseURL (test_method t) 0 log None
            (fallback_endpoints (test_endpoint t)) = (log', Inl err)"
    and l: "fst (executeWithFallbacks fetch baseURL log t) = log'"
    by auto
  from try_endpoints_Inl [OF te] l
  show "fst (executeWithFallbacks fetch baseURL log t) =
          log @ map (fetch_request baseURL (test_method t)) (fallback_endpoints (test_endpoint t))"
    by simp
next
  assume "tier_error fetch baseURL (test_method t) (test_endpoint t) = None"
  then obtain resp where "fetch (fetch_request baseURL (test_method t) (test_endpoint t)) = Inr resp"
    "ok resp"
    by (auto simp: tier_error_None_iff)
  then show "fst (executeWithFallbacks fetch baseURL log t) =
          log @ [fetch_request baseURL (test_method t) (test_endpoint t)]"
    by (simp add: executeWithFallbacks_def fallback_endpoints_def executeRequest_None)
qed

text \<open>
  Claim C7, as stated, gives one order of six tiers for endpoint resolution. The requests
  of \<open>executeWithFallbacks\<close> for \<^verbatim>\<open>/widget/\<close> on an unreachable server: there is no
  \<^verbatim>\<open>/api\<close> tier, and the pluralised path is tried before the path without the slash.
\<close>

theorem executeWithFallbacks_order_counterexample:
  "map url (fst (executeWithFallbacks unreachable ''http://localhost:3000'' [] widget_slash_test)) =
     [''http://localhost:3000/widget/'', ''http://localhost:3000/v1/widget/'',
      ''http://localhost:3000/v2/widget/'', ''http://localhost:3000/widgets'',
      ''http://localhost:3000/widget'']"
  by (simp add: unreachable_run fetch_request_def)

lemma get_user_strategies:
  "healingStrategies get_user_change =
     [(''/users/:id'', []), (''/api/users/:id'', ''api-prefix''), (''/v1/users/:id'', ''v1''),
      (''/v2/users/:id'', ''v2''), (''/users/:id'', ''no-trailing-slash''),
      (pluralizeEndpoint ''/users/:id'', ''pluralized'')]"
  by (simp add: healingStrategies_def get_user_change_def strip_trailing_slash_def endsWith_def)

lemma throwing_until_v1_before:
  "\<forall>j < 2. \<exists>err. snd (throwing_until_v1 (fst (healingStrategies get_user_change ! j))) = Inl err"
proof (intro allI impI)
  fix j :: nat assume "j < 2"
  then have "j = 0 \<or> j = 1" by auto
  then show "\<exists>err. snd (throwing_until_v1 (fst (healingStrategies get_user_change ! j))) = Inl err"
    by (auto simp: get_user_strategies throwing_until_v1_def)
qed

lemma get_user_cases: "length (generateTestCases ''GET'' get_user_change) = 3"
  by code_simp

lemma all_url_replicate:
  "list_all (\<lambda>q. url q = u) reqs \<Longrightarrow> map url reqs = replicate (length reqs) u"
  by (induction reqs) simp_all

text \<open>
  \<open>executeEndpointTest\<close> catches the error of every request, so it never throws: in
  \<open>testChangedEndpoint\<close> the first tier is the one recorded, also when no request of it
  gets an answer. \<^verbatim>\<open>getUserById\<close> against a server that cannot be reached: the three
  test cases of the exact path fail, and no other path is tried.
\<close>

lemma get_user_unreachable:
  "map url (fst (testChangedEndpoint no_validation unreachable ''http://localhost:3000'' ([], [])
      get_user_change)) =
     [''http://localhost:3000/users/:id'', ''http://localhost:3000/users/:id'',
      ''http://localhost:3000/users/:id'']
   \<and> map healingUsed (snd (testChangedEndpoint no_validation unreachable ''http://localhost:3000''
      ([], []) get_user_change)) = [Some []]
   \<and> map overall_success (snd (testChangedEndpoint no_validation unreachable
      ''http://localhost:3000'' ([], []) get_user_change)) = [True]"
  by code_simp

theorem endpoint_tier_order_witness:
  "try_healing throwing_until_v1 [] (healingStrategies get_user_change) =
     (map (fetch_request ''http://localhost:3000'' ''GET'')
        [''/users/:id'', ''/api/users/:id'', ''/v1/users/:id''],
      Some (v1_result, ''v1''))
   \<and> try_healing (\<lambda>u. ([fetch_request ''http://localhost:3000'' ''GET'' u], Inl (Error ''boom'')))
       [] (healingStrategies get_user_change) =
     (map (fetch_request ''http://localhost:3000'' ''GET'')
        [''/users/:id'', ''/api/users/:id'', ''/v1/users/:id'', ''/v2/users/:id'', ''/users/:id'',
         pluralizeEndpoint ''/users/:id''],
      None)
   \<and> map url (fst (testChangedEndpoint no_validation exact_server ''http://localhost:3000''
         ([], []) get_user_change)) =
       [''http://localhost:3000/users/:id'', ''http://localhost:3000/users/:id'',
        ''http://localhost:3000/users/:id'']
   \<and> fst (executeWithFallbacks plural_server ''http://localhost:3000'' [] widget_test) =
       map (fetch_request ''http://localhost:3000'' ''GET'')
         [''/widget'', ''/v1/widget'', ''/v2/widget'', ''/widgets'']
   \<and> snd (executeWithFallbacks v1_server ''http://localhost:3000'' [] widget_test) =
     Inr \<lparr>test = widget_test, result = plain_response 200, succeeded = True,
          healingStrategy = 1, healed = True\<rparr>
   \<and> fst (executeWithFallbacks v1_server ''http://localhost:3000'' [] widget_test) =
       [fetch_request ''http://localhost:3000'' ''GET'' ''/widget'',
        fetch_request ''http://localhost:3000'' ''GET'' ''/v1/widget'']
   \<and> snd (executeWithFallbacks unreachable ''http://localhost:3000'' [] widget_slash_test) =
       Inl (Some (Error ''fetch failed''))
   \<and> fst (executeWithFallbacks unreachable ''http://localhost:3000'' [] widget_slash_test) =
       map (fetch_request ''http://localhost:3000'' ''GET'')
         [''/widget/'', ''/v1/widget/'', ''/v2/widget/'', ''/widgets'', ''/widget'']
   \<and> tier_error exact_server ''http://localhost:3000'' ''GET'' ''/widget'' = None
   \<and> fst (executeWithFallbacks exact_server ''http://localhost:3000'' [] widget_test) =
       [fetch_request ''http://localhost:3000'' ''GET'' ''/widget'']"
proof -
  let ?b = "''http://localhost:3000''"
  let ?r = "\<lparr>test = widget_test, result = plain_response 200, succeeded = True,
          healingStrategy = 1, healed = True\<rparr>"
  let ?boom = "\<lambda>u. ([fetch_request ?b ''GET'' u], Inl (Error ''boom'') :: js_error + endpoint_test)"
  have s1: "snd (executeWithFallbacks v1_server ?b [] widget_test) = Inr ?r"
    by (simp add: v1_server_run)
  have s2: "snd (executeWithFallbacks unreachable ?b [] widget_slash_test) =
       Inl (Some (Error ''fetch failed''))"
    by (simp add: unreachable_run)
  have s3: "tier_error exact_server ?b ''GET'' ''/widget'' = None"
    by (simp add: tier_error_def executeRequest_None exact_server_def fetch_request_def
        plain_response_def ok_def)
  from endpoint_tier_order [where k = 2 and tier_test = throwing_until_v1
      and change = get_user_change and r = v1_result and log = "[]"] throwing_until_v1_before
  have g1: "try_healing throwing_until_v1 [] (healingStrategies get_user_change) =
     (map (fetch_request ?b ''GET'') [''/users/:id'', ''/api/users/:id'', ''/v1/users/:id''],
      Some (v1_result, ''v1''))"
    by (simp add: get_user_strategies throwing_until_v1_def)
  from endpoint_tier_order [where tier_test = ?boom and change = get_user_change and log = "[]"]
  have g2: "try_healing ?boom [] (healingStrategies get_user_change) =
     (map (fetch_request ?b ''GET'')
        [''/users/:id'', ''/api/users/:id'', ''/v1/users/:id'', ''/v2/users/:id'', ''/users/:id'',
         pluralizeEndpoint ''/users/:id''],
      None)"
    by (simp add: get_user_strategies)
  obtain reqs r0 where e0:
    "executeEndpointTest no_validation exact_server ?b [] ''/users/:id'' ''GET'' get_user_change
       = ([] @ reqs, Inr r0)"
    and len: "length reqs = length (generateTestCases ''GET'' get_user_change)"
    and urls: "list_all (\<lambda>q. url q = ?b @ ''/users/:id'') reqs"
    using executeEndpointTest_returns [of no_validation exact_server ?b "[]" "''/users/:id''"
        "''GET''" get_user_change]
    by blast
  have cm: "change_method get_user_change = ''GET''"
    by (simp add: get_user_change_def)
  have first: "0 < (6 :: nat)
      \<and> snd (executeEndpointTest no_validation exact_server ?b []
               (fst (healingStrategies get_user_change ! 0))
               (change_method get_user_change) get_user_change) = Inr r0
      \<and> (\<forall>j < 0. \<exists>err.
            snd (executeEndpointTest no_validation exact_server ?b []
                   (fst (healingStrategies get_user_change ! j))
                   (change_method get_user_change) get_user_change) = Inl err)"
    using e0 by (simp add: get_user_strategies cm)
  from endpoint_tier_order [where k = 0 and rv = no_validation and axios = exact_server
      and baseURL = ?b and change = get_user_change and log = "[]" and results = "[]"
      and r = r0, THEN conjunct2, THEN conjunct2, THEN conjunct2, THEN conjunct1, THEN mp,
      OF first]
  have "fst (testChangedEndpoint no_validation exact_server ?b ([], []) get_user_change) = reqs"
    using e0 by (auto simp: get_user_strategies cm)
  with all_url_replicate [OF urls] len
  have g3: "map url (fst (testChangedEndpoint no_validation exact_server ?b ([], [])
         get_user_change)) =
       [''http://localhost:3000/users/:id'', ''http://localhost:3000/users/:id'',
        ''http://localhost:3000/users/:id'']"
    by (simp add: get_user_cases numeral_3_eq_3)
  from endpoint_tier_order [where i = 3 and baseURL = ?b and fetch = plural_server and log = "[]"
      and t = widget_test] plural_server_before plural_server_tiers(5)
  have g4: "fst (executeWithFallbacks plural_server ?b [] widget_test) =
       map (fetch_request ?b ''GET'') [''/widget'', ''/v1/widget'', ''/v2/widget'', ''/widgets'']"
    by (simp add: widget_test_def widget_endpoints)
  from endpoint_tier_order [where baseURL = ?b and fetch = v1_server and log = "[]"
      and t = widget_test and res = ?r] s1
  have 1: "fst (executeWithFallbacks v1_server ?b [] widget_test) =
       [fetch_request ?b ''GET'' ''/widget'', fetch_request ?b ''GET'' ''/v1/widget'']"
    by (simp add: widget_test_def widget_endpoints)
  from endpoint_tier_order [where baseURL = ?b and fetch = unreachable and log = "[]"
      and t = widget_slash_test and err = "Some (Error ''fetch failed'')"] s2
  have 2: "fst (executeWithFallbacks unreachable ?b [] widget_slash_test) =
       map (fetch_request ?b ''GET'')
         [''/widget/'', ''/v1/widget/'', ''/v2/widget/'', ''/widgets'', ''/widget'']"
    by (simp add: widget_slash_test_def widget_slash_endpoints)
  from endpoint_tier_order [where baseURL = ?b and fetch = exact_server and log = "[]"
      and t = widget_test] s3
  have 3: "fst (executeWithFallbacks exact_server ?b [] widget_test) =
       [fetch_request ?b ''GET'' ''/widget'']"
    by (simp add: widget_test_def)
  from g1 g2 g3 g4 s1 s2 s3 1 2 3 show ?thesis by simp
qed

section \<open>Endpoint and method derivation\<close>

lemma split_on_not_Nil: "split_on c s \<noteq> []"
  by (induction s) (auto split: list.splits)

lemma split_on_absent: "c \<notin> set s \<Longrightarrow> split_on c s = [s]"
  by (induction s) auto

lemma split_on_present: "c \<in> set s \<Longrightarrow> \<exists>l ls. split_on c s = l # ls \<and> ls \<noteq> []"
proof (induction s)
  case Nil
  then show ?case by simp
next
  case (Cons x xs)
  show ?case
  proof (cases "x = c")
    case True
    then show ?thesis by (simp add: split_on_not_Nil)
  next
    case False
    with Cons obtain l ls where "split_on c xs = l # ls" "ls \<noteq> []" by auto
    with False show ?thesis by simp
  qed
qed

lemma takeWhile_stop: "\<not> P x \<Longrightarrow> takeWhile P (xs @ x # ys) = takeWhile P xs"
  by (induction xs) auto

lemma last_split_on: "last (split_on c s) = rev (takeWhile (\<lambda>x. x \<noteq> c) (rev s))"
proof (induction s)
  case Nil
  then show ?case by simp
next
  case (Cons x xs)
  show ?case
  proof (cases "x = c")
    case True
    have "takeWhile (\<lambda>x. x \<noteq> c) (rev xs @ [c]) = takeWhile (\<lambda>x. x \<noteq> c) (rev xs)"
      by (simp add: takeWhile_stop)
    with True Cons show ?thesis
      by (simp add: split_on_not_Nil)
  next
    case False
    show ?thesis
    proof (cases "c \<in> set xs")
      case True
      with split_on_present obtain l ls where s: "split_on c xs = l # ls" "ls \<noteq> []"
        by blast
      from True obtain ys zs where "rev xs = ys @ c # zs"
        by (metis set_rev split_list)
      then have "takeWhile (\<lambda>x. x \<noteq> c) (rev xs @ [x]) = takeWhile (\<lambda>x. x \<noteq> c) (rev xs)"
        by (simp add: takeWhile_stop)
      with s False Cons show ?thesis by simp
    next
      case absent: False
      with False have tw: "takeWhile (\<lambda>x. x \<noteq> c) (rev (x # xs)) = rev (x # xs)"
        by (auto simp: takeWhile_eq_all_conv)
      show ?thesis
        unfolding tw using absent False by (simp add: split_on_absent)
    qed
  qed
qed

lemma last_segment_append_slash: "last_segment (p @ CHR ''/'' # r) = last_segment r"
  by (simp add: last_segment_def takeWhile_stop)

lemma after_api_prefix_Some:
  "after_api_prefix path = Some r \<Longrightarrow> \<exists>p q. path = p @ q @ CHR ''/'' # r"
proof (induction path)
  case Nil
  then show ?case by simp
next
  case (Cons c cs)
  show ?case
  proof (cases "\<not> is_line_terminator c \<and> after_api_prefix cs \<noteq> None")
    case True
    with Cons.prems have "after_api_prefix cs = Some r" by auto
    from Cons.IH [OF this] obtain p q where "cs = p @ q @ CHR ''/'' # r" by blast
    then have "c # cs = (c # p) @ q @ CHR ''/'' # r" by simp
    then show ?thesis by blast
  next
    case False
    then have here: "(if is_line_terminator c then None else after_api_prefix cs) = None"
      by auto
    show ?thesis
    proof (cases "startsWith (c # cs) ''/api/''")
      case True
      with Cons.prems here have r: "r = drop 5 (c # cs)" by simp
      from True obtain t where "c # cs = ''/api/'' @ t" by (auto simp: startsWith_prefix)
      with r have "c # cs = [] @ ''/api'' @ CHR ''/'' # r" by simp
      then show ?thesis by blast
    next
      case no_api: False
      with Cons.prems here have s: "startsWith (c # cs) ''/services/''" "r = drop 10 (c # cs)"
        by (auto split: if_splits)
      from s(1) obtain t where "c # cs = ''/services/'' @ t" by (auto simp: startsWith_prefix)
      with s(2) have "c # cs = [] @ ''/services'' @ CHR ''/'' # r" by simp
      then show ?thesis by blast
    qed
  qed
qed

lemma last_segment_strip_api_prefix: "last_segment (strip_api_prefix path) = last_segment path"
proof (cases "after_api_prefix path")
  case None
  then show ?thesis by (simp add: strip_api_prefix_def)
next
  case (Some r)
  from after_api_prefix_Some [OF Some] obtain p q where "path = (p @ q) @ CHR ''/'' # r"
    by auto
  then have "last_segment path = last_segment r"
    by (simp only: last_segment_append_slash)
  with Some show ?thesis by (simp add: strip_api_prefix_def)
qed

lemma strip_extension_split:
  "e \<noteq> [] \<Longrightarrow> list_all (\<lambda>x. x \<noteq> CHR ''/'' \<and> x \<noteq> CHR ''.'') e
   \<Longrightarrow> strip_extension (a @ CHR ''.'' # e) = a"
  by (induction a) (auto simp: list_all_iff)

lemma strip_extension_cases:
  "strip_extension s = s
   \<or> (\<exists>a e. s = a @ CHR ''.'' # e \<and> e \<noteq> []
          \<and> list_all (\<lambda>x. x \<noteq> CHR ''/'' \<and> x \<noteq> CHR ''.'') e \<and> strip_extension s = a)"
proof (induction s)
  case Nil
  then show ?case by simp
next
  case (Cons c cs)
  show ?case
  proof (cases "c = CHR ''.'' \<and> cs \<noteq> [] \<and> list_all (\<lambda>x. x \<noteq> CHR ''/'' \<and> x \<noteq> CHR ''.'') cs")
    case True
    then have "c # cs = [] @ CHR ''.'' # cs \<and> strip_extension (c # cs) = []" by simp
    with True show ?thesis by blast
  next
    case False
    then have step: "strip_extension (c # cs) = c # strip_extension cs" by auto
    from Cons show ?thesis
    proof
      assume "strip_extension cs = cs"
      with step show ?thesis by simp
    next
      assume "\<exists>a e. cs = a @ CHR ''.'' # e \<and> e \<noteq> []
          \<and> list_all (\<lambda>x. x \<noteq> CHR ''/'' \<and> x \<noteq> CHR ''.'') e \<and> strip_extension cs = a"
      then obtain a e where "cs = a @ CHR ''.'' # e" "e \<noteq> []"
          "list_all (\<lambda>x. x \<noteq> CHR ''/'' \<and> x \<noteq> CHR ''.'') e" "strip_extension cs = a"
        by blast
      with step have "c # cs = (c # a) @ CHR ''.'' # e \<and> e \<noteq> []
          \<and> list_all (\<lambda>x. x \<noteq> CHR ''/'' \<and> x \<noteq> CHR ''.'') e \<and> strip_extension (c # cs) = c # a"
        by simp
      then show ?thesis by blast
    qed
  qed
qed

lemma last_segment_dot:
  assumes "list_all (\<lambda>x. x \<noteq> CHR ''/'' \<and> x \<noteq> CHR ''.'') e"
  shows "last_segment (a @ CHR ''.'' # e) = last_segment a @ CHR ''.'' # e"
proof -
  from assms have "\<forall>x\<in>set (rev e). x \<noteq> CHR ''/''"
    by (simp add: list_all_iff)
  then have "takeWhile (\<lambda>c. c \<noteq> CHR ''/'') (rev e @ CHR ''.'' # rev a)
      = rev e @ takeWhile (\<lambda>c. c \<noteq> CHR ''/'') (CHR ''.'' # rev a)"
    by (intro takeWhile_append2) simp
  then show ?thesis
    by (simp add: last_segment_def)
qed

lemma last_segment_suffix: "\<exists>p. s = p @ last_segment s"
  unfolding last_segment_def
  by (metis rev_append rev_rev_ident takeWhile_dropWhile_id)

lemma last_segment_strip_extension:
  "last_segment (strip_extension s) = strip_extension (last_segment s)"
proof -
  from strip_extension_cases [of s] show ?thesis
  proof
    assume same: "strip_extension s = s"
    from strip_extension_cases [of "last_segment s"]
    have "strip_extension (last_segment s) = last_segment s"
    proof
      assume "strip_extension (last_segment s) = last_segment s"
      then show ?thesis .
    next
      assume "\<exists>a e. last_segment s = a @ CHR ''.'' # e \<and> e \<noteq> []
          \<and> list_all (\<lambda>x. x \<noteq> CHR ''/'' \<and> x \<noteq> CHR ''.'') e
          \<and> strip_extension (last_segment s) = a"
      then obtain a e where l: "last_segment s = a @ CHR ''.'' # e" "e \<noteq> []"
          "list_all (\<lambda>x. x \<noteq> CHR ''/'' \<and> x \<noteq> CHR ''.'') e"
        by blast
      from last_segment_suffix [of s] obtain p where "s = p @ last_segment s" by blast
      with l have "s = (p @ a) @ CHR ''.'' # e" by simp
      from strip_extension_split [OF l(2,3), of "p @ a"] this same
      have "(p @ a) @ CHR ''.'' # e = p @ a" by simp
      then show ?thesis by simp
    qed
    with same show ?thesis by simp
  next
    assume "\<exists>a e. s = a @ CHR ''.'' # e \<and> e \<noteq> []
          \<and> list_all (\<lambda>x. x \<noteq> CHR ''/'' \<and> x \<noteq> CHR ''.'') e \<and> strip_extension s = a"
    then obtain a e where s: "s = a @ CHR ''.'' # e" "e \<noteq> []"
        "list_all (\<lambda>x. x \<noteq> CHR ''/'' \<and> x \<noteq> CHR ''.'') e" "strip_extension s = a"
      by blast
    from s(1,3) have "last_segment s = last_segment a @ CHR ''.'' # e"
      by (simp add: last_segment_dot)
    with strip_extension_split [OF s(2,3), of "last_segment a"] s(4) show ?thesis by simp
  qed
qed

lemma resource_spec: "resource path = spec_resource path"
proof -
  have "resource path = last_segment (strip_extension (strip_api_prefix path))"
    by (simp add: resource_def last_split_on last_segment_def)
  also have "\<dots> = strip_extension (last_segment (strip_api_prefix path))"
    by (rule last_segment_strip_extension)
  also have "\<dots> = spec_resource path"
    by (simp add: last_segment_strip_api_prefix spec_resource_def)
  finally show ?thesis .
qed

lemma includes_str_iff: "includes_str s p \<longleftrightarrow> (\<exists>a b. s = a @ p @ b)"
proof (induction s)
  case Nil
  then show ?case by auto
next
  case (Cons c cs)
  show ?case
  proof
    assume "includes_str (c # cs) p"
    then consider "startsWith (c # cs) p" | "includes_str cs p" by auto
    then show "\<exists>a b. c # cs = a @ p @ b"
    proof cases
      case 1
      then obtain r where "c # cs = [] @ p @ r" by (auto simp: startsWith_prefix)
      then show ?thesis by blast
    next
      case 2
      with Cons obtain a b where "cs = a @ p @ b" by blast
      then have "c # cs = (c # a) @ p @ b" by simp
      then show ?thesis by blast
    qed
  next
    assume "\<exists>a b. c # cs = a @ p @ b"
    then obtain a b where ab: "c # cs = a @ p @ b" by blast
    show "includes_str (c # cs) p"
    proof (cases a)
      case Nil
      with ab have "startsWith (c # cs) p" by (auto simp: startsWith_prefix)
      then show ?thesis by simp
    next
      case (Cons x a')
      with ab have "cs = a' @ p @ b" by simp
      with Cons.IH show ?thesis by auto
    qed
  qed
qed

lemma includes_ById: "includes_str s ''ById'' \<Longrightarrow> includes_str s ''Id''"
proof -
  assume "includes_str s ''ById''"
  then obtain a b where "s = a @ ''ById'' @ b" by (auto simp: includes_str_iff)
  then have "s = (a @ ''By'') @ ''Id'' @ b" by simp
  then show ?thesis unfolding includes_str_iff by blast
qed

lemma resource_users: "resource ''api/users.js'' = ''users''"
  by (simp add: resource_spec spec_resource_def last_segment_def)

lemma scenario_C_endpoint: "APITester_deriveEndpoint ''api/users.js'' ''getUserById'' = ''/users/:id''"
  by (simp add: APITester_deriveEndpoint_def resource_users)

lemma scenario_C_method: "APITester_deriveHTTPMethod ''getUserById'' = ''GET''"
  by (simp add: APITester_deriveHTTPMethod_def toLowerCase_def)

text \<open>
  Claim C8, as stated, covers every declaration of an API-tagged file. The derivation of
  \<open>ChangeAwareTestGenerator\<close>, which builds the API test targets, puts \<^verbatim>\<open>/api\<close> in front
  of the resource, and its method table has no \<^verbatim>\<open>add\<close> (nor \<^verbatim>\<open>find\<close>).
\<close>

theorem Generator_derive_counterexample:
  "Generator_deriveEndpoint ''api/users.js'' ''getUserById'' = ''/api/users/:id''
   \<and> Generator_deriveHTTPMethod ''addUser'' = ''GET''"
  by (simp add: Generator_deriveEndpoint_def resource_users Generator_deriveHTTPMethod_def
      toLowerCase_def)

text \<open>
  Claim C8, amended. In \<open>APITester\<close> the endpoint is \<open>/\<close> plus the last path segment of the
  file without its extension, with \<^verbatim>\<open>/:id\<close> appended when the name contains \<^verbatim>\<open>Id\<close>, and
  the method is that of the first rule, in the order get/fetch/find, post/create/add,
  put/update, patch, delete/remove, with a keyword in the lower-cased name, \<open>GET\<close> when
  there is none; \<^verbatim>\<open>api/users.js\<close> with \<^verbatim>\<open>getUserById\<close> gives \<^verbatim>\<open>/users/:id\<close> and
  \<open>GET\<close>. In \<open>ChangeAwareTestGenerator\<close> the endpoint is \<^verbatim>\<open>/api/\<close> plus the same
  resource, with \<^verbatim>\<open>/:id\<close> for a getter whose name contains \<^verbatim>\<open>Id\<close> and for an update,
  put or delete that is neither a getter nor a create or post; its rule table has
  neither \<^verbatim>\<open>find\<close> nor \<^verbatim>\<open>add\<close>.
\<close>

theorem derive_endpoint_and_method:
  "APITester_deriveEndpoint path funcName =
     ''/'' @ spec_resource path @ (if includes_str funcName ''Id'' then ''/:id'' else [])
   \<and> APITester_deriveHTTPMethod funcName = first_rule method_rules funcName
   \<and> APITester_deriveEndpoint ''api/users.js'' ''getUserById'' = ''/users/:id''
   \<and> APITester_deriveHTTPMethod ''getUserById'' = ''GET''
   \<and> Generator_deriveEndpoint path funcName =
       ''/api/'' @ spec_resource path @
         (if (includes_str funcName ''get'' \<and> includes_str funcName ''Id'')
             \<or> (\<not> includes_str funcName ''get''
                 \<and> \<not> (includes_str funcName ''create'' \<or> includes_str funcName ''post'')
                 \<and> (includes_str funcName ''update'' \<or> includes_str funcName ''put''
                     \<or> includes_str funcName ''delete''))
          then ''/:id'' else [])
   \<and> Generator_deriveHTTPMethod funcName = first_rule generator_method_rules funcName"
proof (intro conjI)
  show "APITester_deriveEndpoint path funcName =
     ''/'' @ spec_resource path @ (if includes_str funcName ''Id'' then ''/:id'' else [])"
    using includes_ById [of funcName]
    by (auto simp: APITester_deriveEndpoint_def resource_spec)
next
  show "APITester_deriveHTTPMethod funcName = first_rule method_rules funcName"
    by (simp add: APITester_deriveHTTPMethod_def first_rule_def method_rules_def Let_def)
next
  show "APITester_deriveEndpoint ''api/users.js'' ''getUserById'' = ''/users/:id''"
    by (rule scenario_C_endpoint)
next
  show "APITester_deriveHTTPMethod ''getUserById'' = ''GET''"
    by (rule scenario_C_method)
next
  show "Generator_deriveEndpoint path funcName =
       ''/api/'' @ spec_resource path @
         (if (includes_str funcName ''get'' \<and> includes_str funcName ''Id'')
             \<or> (\<not> includes_str funcName ''get''
                 \<and> \<not> (includes_str funcName ''create'' \<or> includes_str funcName ''post'')
                 \<and> (includes_str funcName ''update'' \<or> includes_str funcName ''put''
                     \<or> includes_str funcName ''delete''))
          then ''/:id'' else [])"
    by (simp add: Generator_deriveEndpoint_def resource_spec)
next
  show "Generator_deriveHTTPMethod funcName = first_rule generator_method_rules funcName"
    by (simp add: Generator_deriveHTTPMethod_def first_rule_def generator_method_rules_def Let_def)
qed

theorem derive_endpoint_and_method_witness:
  "APITester_deriveEndpoint ''src/services/orders.service.ts'' ''listOrders'' = ''/orders.service''
   \<and> APITester_deriveHTTPMethod ''createAndFetchOrder'' = ''GET''
   \<and> APITester_deriveHTTPMethod ''removeOrder'' = ''DELETE''
   \<and> Generator_deriveEndpoint ''src/services/orders.service.ts'' ''updateOrder''
       = ''/api/orders.service/:id''
   \<and> Generator_deriveHTTPMethod ''patchOrder'' = ''PATCH''"
  using derive_endpoint_and_method [of "''src/services/orders.service.ts''" "''listOrders''"]
    derive_endpoint_and_method [of "''src/services/orders.service.ts''" "''createAndFetchOrder''"]
    derive_endpoint_and_method [of "''src/services/orders.service.ts''" "''removeOrder''"]
    derive_endpoint_and_method [of "''src/services/orders.service.ts''" "''updateOrder''"]
    derive_endpoint_and_method [of "''src/services/orders.service.ts''" "''patchOrder''"]
  by (simp add: spec_resource_def last_segment_def first_rule_def method_rules_def
      generator_method_rules_def toLowerCase_def)

section \<open>The visual target of a UI file\<close>

lemma math_min_Min: "xs \<noteq> [] \<Longrightarrow> math_min xs = Some (Min (set xs))"
proof (cases xs)
  case Nil
  moreover assume "xs \<noteq> []"
  ultimately show ?thesis by simp
next
  case (Cons x rest)
  have "fold min rest x = Min (set (x # rest))"
    by (rule Min.set_eq_fold [symmetric])
  with Cons show ?thesis by (simp add: math_min_def)
qed

lemma math_max_Max: "xs \<noteq> [] \<Longrightarrow> math_max xs = Some (Max (set xs))"
proof (cases xs)
  case Nil
  moreover assume "xs \<noteq> []"
  ultimately show ?thesis by simp
next
  case (Cons x rest)
  have "fold max rest x = Max (set (x # rest))"
    by (rule Max.set_eq_fold [symmetric])
  with Cons show ?thesis by (simp add: math_max_def)
qed

lemma is_visual_map_UITest: "filter is_visual (map (\<lambda>x. UITest (f x)) xs) = []"
  by (induction xs) (simp_all add: is_visual_def)

lemma not_visual_map_UITest:
  "filter (\<lambda>t. \<not> is_visual t) (map (\<lambda>x. UITest (f x)) xs) = map (\<lambda>x. UITest (f x)) xs"
  by (induction xs) (simp_all add: is_visual_def)

text \<open>
  Claim C9, as stated: a visual target is emitted precisely when the count of modified or
  added lines exceeds 10. With six modified and six added lines that count is 12, and no
  visual target is emitted: the code tests the two lists separately.
\<close>

theorem generateUITests_visual_counterexample:
  "length (modified (changed six_and_six) @ added (changed six_and_six)) = 12
   \<and> filter is_visual
        (generateUITests button_component ''src/components/Button.jsx'' six_and_six) = []"
  by (simp add: generateUITests_def six_and_six_def is_visual_def)

text \<open>
  Claim C9, amended. For a UI file the generator emits exactly one visual target, after
  the UI targets, when the modified lines number more than 10 or the added lines number
  more than 10, each list counted on its own, and none otherwise. The target's scope is
  \<open>component\<close> when the largest modified or added line exceeds the smallest by more than
  50, and \<open>partial\<close> otherwise. Every declaration that is not deleted gets one UI target.
\<close>

theorem generateUITests_visual:
  "filter is_visual (generateUITests componentName path changes) =
     (if length (modified (changed changes)) > 10 \<or> length (added (changed changes)) > 10
      then [VisualTest \<lparr>visual_name = ''Visual Test: '' @ path, visual_file = path,
                        targetArea = calculateUIImpactArea changes, threshold_tenths = 1\<rparr>]
      else [])
   \<and> (length (modified (changed changes)) > 10 \<or> length (added (changed changes)) > 10 \<longrightarrow>
        last (generateUITests componentName path changes) =
          VisualTest \<lparr>visual_name = ''Visual Test: '' @ path, visual_file = path,
                      targetArea = calculateUIImpactArea changes, threshold_tenths = 1\<rparr>
        \<and> startLine (calculateUIImpactArea changes) =
            Some (Min (set (modified (changed changes) @ added (changed changes))))
        \<and> endLine (calculateUIImpactArea changes) =
            Some (Max (set (modified (changed changes) @ added (changed changes))))
        \<and> scope (calculateUIImpactArea changes) =
            (if Max (set (modified (changed changes) @ added (changed changes)))
                - Min (set (modified (changed changes) @ added (changed changes))) > 50
             then ''component'' else ''partial''))
   \<and> length (filter (\<lambda>t. \<not> is_visual t) (generateUITests componentName path changes)) =
       length (filter (\<lambda>(funcName, changeType). changeType \<noteq> ''deleted'') (changed_functions changes))"
proof (intro conjI impI)
  show "filter is_visual (generateUITests componentName path changes) =
     (if length (modified (changed changes)) > 10 \<or> length (added (changed changes)) > 10
      then [VisualTest \<lparr>visual_name = ''Visual Test: '' @ path, visual_file = path,
                        targetArea = calculateUIImpactArea changes, threshold_tenths = 1\<rparr>]
      else [])"
    by (simp add: generateUITests_def is_visual_map_UITest case_prod_unfold)
       (simp add: is_visual_def)
next
  show "length (filter (\<lambda>t. \<not> is_visual t) (generateUITests componentName path changes)) =
       length (filter (\<lambda>(funcName, changeType). changeType \<noteq> ''deleted'') (changed_functions changes))"
    by (simp add: generateUITests_def not_visual_map_UITest case_prod_unfold)
       (simp add: is_visual_def)
next
  assume big: "length (modified (changed changes)) > 10 \<or> length (added (changed changes)) > 10"
  then have ne: "modified (changed changes) @ added (changed changes) \<noteq> []"
    by auto
  from big show "last (generateUITests componentName path changes) =
          VisualTest \<lparr>visual_name = ''Visual Test: '' @ path, visual_file = path,
                      targetArea = calculateUIImpactArea changes, threshold_tenths = 1\<rparr>"
    by (simp add: generateUITests_def)
  from math_min_Min [OF ne] show "startLine (calculateUIImpactArea changes) =
            Some (Min (set (modified (changed changes) @ added (changed changes))))"
    by (simp add: calculateUIImpactArea_def Let_def)
  from math_max_Max [OF ne] show "endLine (calculateUIImpactArea changes) =
            Some (Max (set (modified (changed changes) @ added (changed changes))))"
    by (simp add: calculateUIImpactArea_def Let_def)
  from math_min_Min [OF ne] math_max_Max [OF ne]
  show "scope (calculateUIImpactArea changes) =
            (if Max (set (modified (changed changes) @ added (changed changes)))
                - Min (set (modified (changed changes) @ added (changed changes))) > 50
             then ''component'' else ''partial'')"
    by (simp add: calculateUIImpactArea_def Let_def)
qed

lemma area_eleven_close:
  "calculateUIImpactArea eleven_close =
     \<lparr>startLine = Some 20, endLine = Some 30, scope = ''partial''\<rparr>"
  by (simp add: calculateUIImpactArea_def eleven_close_def math_min_def math_max_def)

lemma area_eleven_spread:
  "calculateUIImpactArea eleven_spread =
     \<lparr>startLine = Some 5, endLine = Some 105, scope = ''component''\<rparr>"
  by (simp add: calculateUIImpactArea_def eleven_spread_def math_min_def math_max_def)

theorem generateUITests_visual_witness:
  "length (modified (changed eleven_close)) = 11
   \<and> filter is_visual (generateUITests button_component ''src/components/Button.jsx'' eleven_close)
       = [VisualTest \<lparr>visual_name = ''Visual Test: src/components/Button.jsx'',
                       visual_file = ''src/components/Button.jsx'',
                       targetArea = \<lparr>startLine = Some 20, endLine = Some 30, scope = ''partial''\<rparr>,
                       threshold_tenths = 1\<rparr>]
   \<and> length (generateUITests button_component ''src/components/Button.jsx'' eleven_close) = 2
   \<and> length (added (changed eleven_spread)) = 11
   \<and> last (generateUITests button_component ''src/components/Button.jsx'' eleven_spread)
       = VisualTest \<lparr>visual_name = ''Visual Test: src/components/Button.jsx'',
                      visual_file = ''src/components/Button.jsx'',
                      targetArea = \<lparr>startLine = Some 5, endLine = Some 105, scope = ''component''\<rparr>,
                      threshold_tenths = 1\<rparr>"
proof -
  have a: "length (modified (changed eleven_close)) = 11"
    and b: "length (added (changed eleven_spread)) = 11"
    by (simp_all add: eleven_close_def eleven_spread_def)
  have n: "length (generateUITests button_component ''src/components/Button.jsx'' eleven_close) = 2"
    by (simp add: generateUITests_def eleven_close_def)
  from generateUITests_visual [of button_component "''src/components/Button.jsx''" eleven_close] a
  have 1: "filter is_visual (generateUITests button_component ''src/components/Button.jsx'' eleven_close)
       = [VisualTest \<lparr>visual_name = ''Visual Test: src/components/Button.jsx'',
                       visual_file = ''src/components/Button.jsx'',
                       targetArea = \<lparr>startLine = Some 20, endLine = Some 30, scope = ''partial''\<rparr>,
                       threshold_tenths = 1\<rparr>]"
    by (simp add: area_eleven_close)
  from generateUITests_visual [of button_component "''src/components/Button.jsx''" eleven_spread] b
  have 2: "last (generateUITests button_component ''src/components/Button.jsx'' eleven_spread)
       = VisualTest \<lparr>visual_name = ''Visual Test: src/components/Button.jsx'',
                      visual_file = ''src/components/Button.jsx'',
                      targetArea = \<lparr>startLine = Some 5, endLine = Some 105, scope = ''component''\<rparr>,
                      threshold_tenths = 1\<rparr>"
    by (simp add: area_eleven_spread)
  from a b n 1 2 show ?thesis by simp
qed

end
